theory Spec2Isabelle
  imports Main "HOL-Library.Word" "HOL-Library.Sublist"
begin

section \<open>The event-stream reader of go-openai\<close>

text \<open>
  A shallow embedding of \<^verbatim>\<open>StreamReader\<close>, the reader of server-sent event streams.
  The repository holds two variants of the file: \<^verbatim>\<open>src/stream_reader.go\<close>, which
  detects error objects sent inline behind the \<^verbatim>\<open>data: \<close> prefix, and
  \<^verbatim>\<open>src/unnamed/part_000\<close>, which does not. Both are embedded; the definitions taken
  from the second variant carry the suffix \<open>_plain\<close>.

  Byte slices are \<^typ>\<open>string\<close> (lists of 8-bit characters), Go's \<^verbatim>\<open>uint\<close> is a
  64-bit word (its size on 64-bit platforms), a Go \<^verbatim>\<open>error\<close> result is an \<open>error option\<close> (\<open>None\<close> is
  \<^verbatim>\<open>nil\<close>), and a method that mutates its receiver returns the new receiver next to
  its results.
\<close>

subsection \<open>Errors\<close>

text \<open>
  \<open>io_EOF\<close> is \<^verbatim>\<open>io.EOF\<close>; \<open>ErrTooManyEmptyStreamMessages\<close> is the package's sentinel;
  \<open>Errorf_error d\<close> is \<^verbatim>\<open>fmt.Errorf("error, %w", d)\<close> for the inner error detail \<open>d\<close>
  of an error envelope (a pointer, so possibly \<^verbatim>\<open>nil\<close>); \<open>Failure m\<close> is any other error
  value that a collaborator (the body, the decoder, the accumulator) hands back.
\<close>

datatype 'e error =
    io_EOF
  | ErrTooManyEmptyStreamMessages
  | Errorf_error "'e option"
  | Failure string

subsection \<open>Byte-slice helpers of package \<^verbatim>\<open>bytes\<close>\<close>

definition HasPrefix :: "string \<Rightarrow> string \<Rightarrow> bool" where
  "HasPrefix s p \<longleftrightarrow> prefix p s"

definition TrimPrefix :: "string \<Rightarrow> string \<Rightarrow> string" where
  "TrimPrefix s p = (if HasPrefix s p then drop (length p) s else s)"

text \<open>
  \<^verbatim>\<open>bytes.TrimSpace\<close> removes leading and trailing white space as \<^verbatim>\<open>unicode.IsSpace\<close>
  defines it, reading the slice as UTF-8. A rune is white space exactly when its encoding
  is one of \<open>spaceRunes\<close>: the six ASCII characters tab, line feed, vertical tab, form
  feed, carriage return and space, then U+0085, U+00A0, U+1680, U+2000 to U+200A, U+2028,
  U+2029, U+202F, U+205F and U+3000. Invalid UTF-8 decodes to the replacement rune, which
  is not white space, so trimming stops there.
\<close>

definition spaceRunes :: "string list" where
  "spaceRunes =
    [[CHR 0x09], [CHR 0x0A], [CHR 0x0B], [CHR 0x0C], [CHR 0x0D], [CHR 0x20],
     [CHR 0xC2, CHR 0x85], [CHR 0xC2, CHR 0xA0],
     [CHR 0xE1, CHR 0x9A, CHR 0x80],
     [CHR 0xE2, CHR 0x80, CHR 0x80], [CHR 0xE2, CHR 0x80, CHR 0x81],
     [CHR 0xE2, CHR 0x80, CHR 0x82], [CHR 0xE2, CHR 0x80, CHR 0x83],
     [CHR 0xE2, CHR 0x80, CHR 0x84], [CHR 0xE2, CHR 0x80, CHR 0x85],
     [CHR 0xE2, CHR 0x80, CHR 0x86], [CHR 0xE2, CHR 0x80, CHR 0x87],
     [CHR 0xE2, CHR 0x80, CHR 0x88], [CHR 0xE2, CHR 0x80, CHR 0x89],
     [CHR 0xE2, CHR 0x80, CHR 0x8A],
     [CHR 0xE2, CHR 0x80, CHR 0xA8], [CHR 0xE2, CHR 0x80, CHR 0xA9],
     [CHR 0xE2, CHR 0x80, CHR 0xAF],
     [CHR 0xE2, CHR 0x81, CHR 0x9F],
     [CHR 0xE3, CHR 0x80, CHR 0x80]]"

text \<open>\<open>stripRunes ts s\<close> drops from the front of \<open>s\<close> every leading occurrence of a
  (non-empty) member of \<open>ts\<close>.\<close>

function stripRunes :: "string list \<Rightarrow> string \<Rightarrow> string" where
  "stripRunes ts s =
     (case find (\<lambda>t. t \<noteq> [] \<and> prefix t s) ts of
        None \<Rightarrow> s
      | Some t \<Rightarrow> stripRunes ts (drop (length t) s))"
  by pat_completeness auto
termination
proof (relation "measure (\<lambda>(ts, s). length s)")
  show "wf (measure (\<lambda>(ts, s). length s))"
    by simp
next
  fix ts :: "string list" and s t :: string
  assume "find (\<lambda>t. t \<noteq> [] \<and> prefix t s) ts = Some t"
  then have "t \<noteq> []" and "prefix t s"
    by (auto simp: find_Some_iff)
  then show "((ts, drop (length t) s), (ts, s)) \<in> measure (\<lambda>(ts, s). length s)"
    by (cases s) (auto simp: prefix_def)
qed

definition TrimSpace :: "string \<Rightarrow> string" where
  "TrimSpace s = rev (stripRunes (map rev spaceRunes) (rev (stripRunes spaceRunes s)))"

subsection \<open>The line source: \<^verbatim>\<open>bufio.Reader\<close> over the response body\<close>

text \<open>
  \<open>pending\<close> holds the bytes of the body that have not been read yet and \<open>rd_err\<close> the
  error the body reports once they are used up (\<^verbatim>\<open>io.EOF\<close> for an ordinary end, anything
  else for a transport failure). \<open>calls\<close> counts the \<^verbatim>\<open>ReadBytes\<close> calls made so far; it
  is there to make "no read happens" observable.
\<close>

record 'e bufio_Reader =
  pending :: string
  rd_err :: "'e error"
  calls :: nat

text \<open>
  \<^verbatim>\<open>ReadBytes(delim)\<close> reads up to and including the first \<open>delim\<close>. When the body ends
  before a delimiter is found it returns the bytes read so far together with the error.
\<close>

definition ReadBytes ::
  "'e bufio_Reader \<Rightarrow> char \<Rightarrow> (string \<times> 'e error option) \<times> 'e bufio_Reader" where
  "ReadBytes b delim =
     (if delim \<in> set (pending b)
      then ((takeWhile (\<lambda>c. c \<noteq> delim) (pending b) @ [delim], None),
            b\<lparr>pending := tl (dropWhile (\<lambda>c. c \<noteq> delim) (pending b)), calls := Suc (calls b)\<rparr>)
      else ((pending b, Some (rd_err b)),
            b\<lparr>pending := [], calls := Suc (calls b)\<rparr>))"

subsection \<open>Collaborators declared outside the stream reader\<close>

text \<open>
  Modelled from the spec: the type \<^verbatim>\<open>ErrorResponse\<close> is declared in a file that is not
  under \<^verbatim>\<open>src/\<close>. The spec calls it the terminal error envelope, which "wraps an inner
  error detail if decodable"; the reader only looks at its field \<^verbatim>\<open>Error\<close>, a pointer
  to the detail. The type \<open>'e\<close> of the detail stays abstract.
\<close>

record 'e ErrorResponse =
  Error :: "'e option"

text \<open>
  The interface \<^verbatim>\<open>utils.Unmarshaler\<close> has the one method
  \<^verbatim>\<open>Unmarshal(data []byte, v any) error\<close>. The reader calls it at two target types:
  with a pointer to a fresh response of type \<open>'t\<close>, and with a pointer to a
  \<^verbatim>\<open>nil\<close> pointer to an error envelope (which a successful decode may leave
  \<^verbatim>\<open>nil\<close>). An implementation is given by what it returns at the two types.
\<close>

record ('t, 'e) utils_Unmarshaler =
  Unmarshal_response :: "string \<Rightarrow> 'e error + 't"
  Unmarshal_ErrorResponse :: "string \<Rightarrow> 'e error + 'e ErrorResponse option"

text \<open>
  The interface \<^verbatim>\<open>utils.ErrorAccumulator\<close> has the methods
  \<^verbatim>\<open>Write(p []byte) error\<close> and \<^verbatim>\<open>Bytes() []byte\<close>. An interface value is an object:
  some state \<open>'a\<close> together with its two methods.
\<close>

record ('a, 'e) utils_ErrorAccumulator =
  acc_state :: 'a
  Write_method :: "'a \<Rightarrow> string \<Rightarrow> 'e error option \<times> 'a"
  Bytes_method :: "'a \<Rightarrow> string"

definition Write ::
  "('a, 'e) utils_ErrorAccumulator \<Rightarrow> string \<Rightarrow> 'e error option \<times> ('a, 'e) utils_ErrorAccumulator" where
  "Write acc p =
     (case Write_method acc (acc_state acc) p of
        (err, st) \<Rightarrow> (err, acc\<lparr>acc_state := st\<rparr>))"

definition Bytes :: "('a, 'e) utils_ErrorAccumulator \<Rightarrow> string" where
  "Bytes acc = Bytes_method acc (acc_state acc)"

text \<open>
  Modelled from the spec: the accumulator that a session is created with is not under
  \<^verbatim>\<open>src/\<close>. The spec describes it as "a growable byte buffer that collects bytes from
  lines that do not match the expected event-payload framing": writing appends and does
  not fail, and \<^verbatim>\<open>Bytes\<close> returns what was collected.
\<close>

definition DefaultErrorAccumulator :: "string \<Rightarrow> (string, 'e) utils_ErrorAccumulator" where
  "DefaultErrorAccumulator buf =
     \<lparr>acc_state = buf, Write_method = (\<lambda>b p. (None, b @ p)), Bytes_method = (\<lambda>b. b)\<rparr>"

subsection \<open>The stream reader\<close>

definition headerData :: string where
  "headerData = ''data: ''"

definition errorPrefix :: string where
  \<open>errorPrefix = ''data: {"error":''\<close>

definition newline :: char where
  "newline = CHR 0x0A"

text \<open>
  The struct \<^verbatim>\<open>StreamReader[T]\<close>. The field \<^verbatim>\<open>Response\<close> is used by \<^verbatim>\<open>Close\<close> only
  and is left out.
\<close>

record ('t, 'e, 'a) StreamReader =
  EmptyMessagesLimit :: "64 word"
  isFinished :: bool
  Reader :: "'e bufio_Reader"
  ErrAccumulator :: "('a, 'e) utils_ErrorAccumulator"
  Unmarshaler :: "('t, 'e) utils_Unmarshaler"

text \<open>
  \<^verbatim>\<open>unmarshalError\<close>: \<^verbatim>\<open>nil\<close> when the accumulator is empty or its bytes do not decode,
  otherwise whatever the decoder left in the pointer.
\<close>

definition unmarshalError :: "('t, 'e, 'a) StreamReader \<Rightarrow> 'e ErrorResponse option" where
  "unmarshalError stream =
     (let errBytes = Bytes (ErrAccumulator stream) in
      if length errBytes = 0 then None
      else (case Unmarshal_ErrorResponse (Unmarshaler stream) errBytes of
              Inl err \<Rightarrow> None
            | Inr errResp \<Rightarrow> errResp))"

text \<open>
  The loop of \<^verbatim>\<open>processLines\<close> in \<^verbatim>\<open>src/stream_reader.go\<close>, with its two local
  variables as arguments. The result is the pair that the Go function returns, next to
  the stream as the call leaves it; \<open>0\<close> is \<^verbatim>\<open>*new(T)\<close>, the zero value of the response
  type.
\<close>

function processLines_loop ::
  "('t::zero, 'e, 'a) StreamReader \<Rightarrow> 64 word \<Rightarrow> bool \<Rightarrow>
     ('t \<times> 'e error option) \<times> ('t, 'e, 'a) StreamReader" where
  "processLines_loop stream emptyMessagesCount hasErrorPrefix =
     (case ReadBytes (Reader stream) newline of
        ((rawLine, readErr), rd) \<Rightarrow>
          let stream = stream\<lparr>Reader := rd\<rparr> in
          if readErr \<noteq> None \<or> hasErrorPrefix then
            (case unmarshalError stream of
               Some respErr \<Rightarrow> ((0, Some (Errorf_error (Error respErr))), stream)
             | None \<Rightarrow> ((0, readErr), stream))
          else
            let noSpaceLine = TrimSpace rawLine;
                hasErrorPrefix = (if HasPrefix noSpaceLine errorPrefix then True else hasErrorPrefix)
            in
            if \<not> HasPrefix noSpaceLine headerData \<or> hasErrorPrefix then
              let noSpaceLine =
                    (if hasErrorPrefix then TrimPrefix noSpaceLine headerData else noSpaceLine)
              in
              (case Write (ErrAccumulator stream) noSpaceLine of
                 (writeErr, acc) \<Rightarrow>
                   let stream = stream\<lparr>ErrAccumulator := acc\<rparr> in
                   (case writeErr of
                      Some err \<Rightarrow> ((0, Some err), stream)
                    | None \<Rightarrow>
                        let emptyMessagesCount = emptyMessagesCount + 1 in
                        if emptyMessagesCount > EmptyMessagesLimit stream
                        then ((0, Some ErrTooManyEmptyStreamMessages), stream)
                        else processLines_loop stream emptyMessagesCount hasErrorPrefix))
            else
              let noPrefixLine = TrimPrefix noSpaceLine headerData in
              if noPrefixLine = ''[DONE]'' then
                ((0, Some io_EOF), stream\<lparr>isFinished := True\<rparr>)
              else
                (case Unmarshal_response (Unmarshaler stream) noPrefixLine of
                   Inl unmarshalErr \<Rightarrow> ((0, Some unmarshalErr), stream)
                 | Inr response \<Rightarrow> ((response, None), stream)))"
  by pat_completeness auto

termination
proof (relation "measure (\<lambda>(stream, c, h). length (pending (Reader stream)))", goal_cases)
  case 1
  show ?case by simp
next
  case (2 stream c h res rd rawLine readErr)
  let ?p = "pending (Reader stream)"
  from 2 have mem: "newline \<in> set ?p"
    and rd: "pending rd = tl (dropWhile (\<lambda>c. c \<noteq> newline) ?p)"
    by (auto simp: ReadBytes_def split: if_splits)
  from mem obtain x xs where cons: "dropWhile (\<lambda>c. c \<noteq> newline) ?p = x # xs"
    by (cases "dropWhile (\<lambda>c. c \<noteq> newline) ?p") auto
  have "length (dropWhile (\<lambda>c. c \<noteq> newline) ?p) \<le> length ?p"
    by (rule length_dropWhile_le)
  with cons rd have "length (pending rd) < length ?p"
    by simp
  with 2 show ?case
    by simp
qed

definition processLines ::
  "('t::zero, 'e, 'a) StreamReader \<Rightarrow> ('t \<times> 'e error option) \<times> ('t, 'e, 'a) StreamReader" where
  "processLines stream = processLines_loop stream 0 False"

definition Recv ::
  "('t::zero, 'e, 'a) StreamReader \<Rightarrow> ('t \<times> 'e error option) \<times> ('t, 'e, 'a) StreamReader" where
  "Recv stream =
     (if isFinished stream then ((0, Some io_EOF), stream)
      else processLines stream)"

subsection \<open>The variant without inline error detection\<close>

text \<open>
  \<^verbatim>\<open>src/unnamed/part_000\<close> declares the same struct and the same \<^verbatim>\<open>unmarshalError\<close>;
  its loop has no \<^verbatim>\<open>hasErrorPrefix\<close>.
\<close>

function processLines_loop_plain ::
  "('t::zero, 'e, 'a) StreamReader \<Rightarrow> 64 word \<Rightarrow>
     ('t \<times> 'e error option) \<times> ('t, 'e, 'a) StreamReader" where
  "processLines_loop_plain stream emptyMessagesCount =
     (case ReadBytes (Reader stream) newline of
        ((rawLine, readErr), rd) \<Rightarrow>
          let stream = stream\<lparr>Reader := rd\<rparr> in
          if readErr \<noteq> None then
            (case unmarshalError stream of
               Some respErr \<Rightarrow> ((0, Some (Errorf_error (Error respErr))), stream)
             | None \<Rightarrow> ((0, readErr), stream))
          else
            let noSpaceLine = TrimSpace rawLine in
            if \<not> HasPrefix noSpaceLine headerData then
              (case Write (ErrAccumulator stream) noSpaceLine of
                 (writeErr, acc) \<Rightarrow>
                   let stream = stream\<lparr>ErrAccumulator := acc\<rparr> in
                   (case writeErr of
                      Some err \<Rightarrow> ((0, Some err), stream)
                    | None \<Rightarrow>
                        let emptyMessagesCount = emptyMessagesCount + 1 in
                        if emptyMessagesCount > EmptyMessagesLimit stream
                        then ((0, Some ErrTooManyEmptyStreamMessages), stream)
                        else processLines_loop_plain stream emptyMessagesCount))
            else
              let noPrefixLine = TrimPrefix noSpaceLine headerData in
              if noPrefixLine = ''[DONE]'' then
                ((0, Some io_EOF), stream\<lparr>isFinished := True\<rparr>)
              else
                (case Unmarshal_response (Unmarshaler stream) noPrefixLine of
                   Inl unmarshalErr \<Rightarrow> ((0, Some unmarshalErr), stream)
                 | Inr response \<Rightarrow> ((response, None), stream)))"
  by pat_completeness auto
termination
proof (relation "measure (\<lambda>(stream, c). length (pending (Reader stream)))", goal_cases)
  case 1
  show ?case by simp
next
  case (2 stream c res rd rawLine readErr)
  let ?p = "pending (Reader stream)"
  from 2 have mem: "newline \<in> set ?p"
    and rd: "pending rd = tl (dropWhile (\<lambda>c. c \<noteq> newline) ?p)"
    by (auto simp: ReadBytes_def split: if_splits)
  from mem obtain x xs where cons: "dropWhile (\<lambda>c. c \<noteq> newline) ?p = x # xs"
    by (cases "dropWhile (\<lambda>c. c \<noteq> newline) ?p") auto
  have "length (dropWhile (\<lambda>c. c \<noteq> newline) ?p) \<le> length ?p"
    by (rule length_dropWhile_le)
  with cons rd have "length (pending rd) < length ?p"
    by simp
  with 2 show ?case
    by simp
qed

definition processLines_plain ::
  "('t::zero, 'e, 'a) StreamReader \<Rightarrow> ('t \<times> 'e error option) \<times> ('t, 'e, 'a) StreamReader" where
  "processLines_plain stream = processLines_loop_plain stream 0"

definition Recv_plain ::
  "('t::zero, 'e, 'a) StreamReader \<Rightarrow> ('t \<times> 'e error option) \<times> ('t, 'e, 'a) StreamReader" where
  "Recv_plain stream =
     (if isFinished stream then ((0, Some io_EOF), stream)
      else processLines_plain stream)"

subsection \<open>Callers\<close>

text \<open>
  A caller pulls values by calling \<^verbatim>\<open>Recv\<close> again and again on the same session.
  \<open>successive recv n stream\<close> makes \<open>n\<close> calls and returns their results in order,
  next to the session as the last call leaves it.
\<close>

fun successive ::
  "('s \<Rightarrow> 'r \<times> 's) \<Rightarrow> nat \<Rightarrow> 's \<Rightarrow> 'r list \<times> 's" where
  "successive recv 0 stream = ([], stream)"
| "successive recv (Suc n) stream =
     (case recv stream of
        (r, stream') \<Rightarrow>
          (case successive recv n stream' of
             (rs, stream'') \<Rightarrow> (r # rs, stream'')))"

subsection \<open>Lines of a body\<close>

text \<open>
  \<open>is_line l\<close>: \<open>l\<close> is one line as \<^verbatim>\<open>ReadBytes('\n')\<close> delivers it, ending in its only
  line feed. \<open>complete_lines body\<close> are the lines that successive successful reads
  deliver from \<open>body\<close>; a last fragment without line feed comes with the read error and
  is not among them. \<open>data_line p\<close> is the event line \<^verbatim>\<open>data: <p>\n\<close>.
\<close>

definition is_line :: "string \<Rightarrow> bool" where
  "is_line l \<longleftrightarrow> l \<noteq> [] \<and> last l = newline \<and> newline \<notin> set (butlast l)"

function complete_lines :: "string \<Rightarrow> string list" where
  "complete_lines body =
     (if newline \<in> set body
      then (takeWhile (\<lambda>c. c \<noteq> newline) body @ [newline])
             # complete_lines (tl (dropWhile (\<lambda>c. c \<noteq> newline) body))
      else [])"
  by pat_completeness auto
termination
proof (relation "measure length", goal_cases)
  case 1
  show ?case by simp
next
  case (2 body)
  then obtain x xs where cons: "dropWhile (\<lambda>c. c \<noteq> newline) body = x # xs"
    by (cases "dropWhile (\<lambda>c. c \<noteq> newline) body") auto
  have "length (dropWhile (\<lambda>c. c \<noteq> newline) body) \<le> length body"
    by (rule length_dropWhile_le)
  with cons show ?case
    by simp
qed

definition data_line :: "string \<Rightarrow> string" where
  "data_line p = headerData @ p @ [newline]"

text \<open>
  \<open>no_inline_error body\<close>: none of the lines of \<open>body\<close> begins, once trimmed, with
  \<^verbatim>\<open>data: {"error":\<close>.
\<close>

definition no_inline_error :: "string \<Rightarrow> bool" where
  "no_inline_error body \<longleftrightarrow>
     (\<forall>l \<in> set (complete_lines body). \<not> HasPrefix (TrimSpace l) errorPrefix)"

text \<open>
  \<open>event_decodes u p v\<close>: \<^verbatim>\<open>data: <p>\n\<close> is a single line, the reader finds the prefix
  on it, and what the reader takes as its payload (the trimmed line without the prefix)
  is not the sentinel and is decoded by \<open>u\<close> to the value \<open>v\<close>.
\<close>

definition event_decodes :: "('t, 'e) utils_Unmarshaler \<Rightarrow> string \<Rightarrow> 't \<Rightarrow> bool" where
  "event_decodes u p v \<longleftrightarrow>
     newline \<notin> set p \<and>
     HasPrefix (TrimSpace (data_line p)) headerData \<and>
     TrimPrefix (TrimSpace (data_line p)) headerData \<noteq> ''[DONE]'' \<and>
     Unmarshal_response u (TrimPrefix (TrimSpace (data_line p)) headerData) = Inr v"

subsection \<open>Example collaborators\<close>

text \<open>
  A small decoder and a fresh session over a given body, for running the reader on
  concrete streams. The decoder answers as a JSON decoder does on the few inputs it
  knows and rejects everything else: three payloads decode as events (responses are
  numbers here), one object decodes as an error envelope with the detail
  \<open>''bad request''\<close>, and the event \<^verbatim>\<open>{"error":null,"id":7}\<close>, read as an envelope,
  gives one without inner detail. The session starts open, with an empty byte-buffer
  accumulator, over a body that ends with \<^verbatim>\<open>io.EOF\<close>.
\<close>

definition exampleUnmarshaler :: "(nat, string) utils_Unmarshaler" where
  \<open>exampleUnmarshaler =
     \<lparr>Unmarshal_response =
        (\<lambda>data. if data = ''1'' then Inr 1
                else if data = ''2'' then Inr 2
                else if data = ''{"error":null,"id":7}'' then Inr 7
                else Inl (Failure ''invalid character'')),
      Unmarshal_ErrorResponse =
        (\<lambda>data. if data = ''{"error":{"message":"bad request"}}''
                then Inr (Some \<lparr>Error = Some ''bad request''\<rparr>)
                else if data = ''{"error":null,"id":7}''
                then Inr (Some \<lparr>Error = None\<rparr>)
                else Inl (Failure ''invalid character''))\<rparr>\<close>

definition exampleStream :: "64 word \<Rightarrow> string \<Rightarrow> (nat, string, string) StreamReader" where
  "exampleStream limit body =
     \<lparr>EmptyMessagesLimit = limit, isFinished = False,
      Reader = \<lparr>pending = body, rd_err = io_EOF, calls = 0\<rparr>,
      ErrAccumulator = DefaultErrorAccumulator [],
      Unmarshaler = exampleUnmarshaler\<rparr>"

section \<open>Properties\<close>

subsection \<open>One iteration of the loop\<close>

declare processLines_loop.simps [simp del] processLines_loop_plain.simps [simp del]
  stripRunes.simps [simp del] complete_lines.simps [simp del]

lemmas run_simps =
  Recv_def Recv_plain_def processLines_def processLines_plain_def
  processLines_loop.simps processLines_loop_plain.simps unmarshalError_def
  ReadBytes_def newline_def TrimSpace_def stripRunes.simps spaceRunes_def
  HasPrefix_def TrimPrefix_def headerData_def errorPrefix_def
  Write_def Bytes_def DefaultErrorAccumulator_def
  exampleUnmarshaler_def exampleStream_def Let_def

lemma unmarshalError_Reader [simp]:
  "unmarshalError (s\<lparr>Reader := rd\<rparr>) = unmarshalError s"
  by (simp add: unmarshalError_def Let_def)

lemma Write_Default [simp]:
  "Write (DefaultErrorAccumulator buf) p = (None, DefaultErrorAccumulator (buf @ p))"
  by (simp add: Write_def DefaultErrorAccumulator_def)

lemma Bytes_Default [simp]:
  "Bytes (DefaultErrorAccumulator buf) = buf"
  by (simp add: Bytes_def DefaultErrorAccumulator_def)

lemma errorPrefix_headerData:
  "HasPrefix t errorPrefix \<Longrightarrow> HasPrefix t headerData"
  by (auto simp: HasPrefix_def errorPrefix_def headerData_def prefix_def)

lemma DONE_not_error:
  "TrimPrefix t headerData = ''[DONE]'' \<Longrightarrow> \<not> HasPrefix t errorPrefix"
  by (auto simp: HasPrefix_def TrimPrefix_def errorPrefix_def headerData_def prefix_def
      split: if_splits)

text \<open>Lines 50 to 57: the read failed, or the error flag is up.\<close>

lemma loop_error_path:
  assumes "ReadBytes (Reader s) newline = ((rawLine, readErr), rd)"
    and "readErr \<noteq> None \<or> h"
  shows "processLines_loop s c h =
    (case unmarshalError s of
       Some respErr \<Rightarrow> ((0, Some (Errorf_error (Error respErr))), s\<lparr>Reader := rd\<rparr>)
     | None \<Rightarrow> ((0, readErr), s\<lparr>Reader := rd\<rparr>))"
  using assms by (subst processLines_loop.simps) (simp add: Let_def)

text \<open>Lines 63 to 77: the line goes to the accumulator.\<close>

lemma loop_accumulate:
  assumes "ReadBytes (Reader s) newline = ((rawLine, None), rd)"
    and "\<not> HasPrefix (TrimSpace rawLine) headerData \<or> HasPrefix (TrimSpace rawLine) errorPrefix"
    and "Write (ErrAccumulator s)
           (if HasPrefix (TrimSpace rawLine) errorPrefix
            then TrimPrefix (TrimSpace rawLine) headerData else TrimSpace rawLine) = (writeErr, acc)"
  shows "processLines_loop s c False =
    (case writeErr of
       Some err \<Rightarrow> ((0, Some err), s\<lparr>Reader := rd, ErrAccumulator := acc\<rparr>)
     | None \<Rightarrow>
         if c + 1 > EmptyMessagesLimit s
         then ((0, Some ErrTooManyEmptyStreamMessages), s\<lparr>Reader := rd, ErrAccumulator := acc\<rparr>)
         else processLines_loop (s\<lparr>Reader := rd, ErrAccumulator := acc\<rparr>) (c + 1)
                (HasPrefix (TrimSpace rawLine) errorPrefix))"
  using assms by (subst processLines_loop.simps) (auto simp add: Let_def split: option.splits)

text \<open>Lines 79 to 91: the line is a payload line.\<close>

lemma loop_payload:
  assumes "ReadBytes (Reader s) newline = ((rawLine, None), rd)"
    and "HasPrefix (TrimSpace rawLine) headerData"
    and "\<not> HasPrefix (TrimSpace rawLine) errorPrefix"
  shows "processLines_loop s c False =
    (if TrimPrefix (TrimSpace rawLine) headerData = ''[DONE]''
     then ((0, Some io_EOF), s\<lparr>Reader := rd, isFinished := True\<rparr>)
     else (case Unmarshal_response (Unmarshaler s) (TrimPrefix (TrimSpace rawLine) headerData) of
             Inl unmarshalErr \<Rightarrow> ((0, Some unmarshalErr), s\<lparr>Reader := rd\<rparr>)
           | Inr response \<Rightarrow> ((response, None), s\<lparr>Reader := rd\<rparr>)))"
  using assms by (subst processLines_loop.simps) (simp add: Let_def)

text \<open>The same three cases in the variant without inline error detection.\<close>

lemma plain_error_path:
  assumes "ReadBytes (Reader s) newline = ((rawLine, Some err), rd)"
  shows "processLines_loop_plain s c =
    (case unmarshalError s of
       Some respErr \<Rightarrow> ((0, Some (Errorf_error (Error respErr))), s\<lparr>Reader := rd\<rparr>)
     | None \<Rightarrow> ((0, Some err), s\<lparr>Reader := rd\<rparr>))"
  using assms by (subst processLines_loop_plain.simps) (simp add: Let_def)

lemma plain_accumulate:
  assumes "ReadBytes (Reader s) newline = ((rawLine, None), rd)"
    and "\<not> HasPrefix (TrimSpace rawLine) headerData"
    and "Write (ErrAccumulator s) (TrimSpace rawLine) = (writeErr, acc)"
  shows "processLines_loop_plain s c =
    (case writeErr of
       Some err \<Rightarrow> ((0, Some err), s\<lparr>Reader := rd, ErrAccumulator := acc\<rparr>)
     | None \<Rightarrow>
         if c + 1 > EmptyMessagesLimit s
         then ((0, Some ErrTooManyEmptyStreamMessages), s\<lparr>Reader := rd, ErrAccumulator := acc\<rparr>)
         else processLines_loop_plain (s\<lparr>Reader := rd, ErrAccumulator := acc\<rparr>) (c + 1))"
  using assms by (subst processLines_loop_plain.simps) (auto simp add: Let_def split: option.splits)

lemma plain_payload:
  assumes "ReadBytes (Reader s) newline = ((rawLine, None), rd)"
    and "HasPrefix (TrimSpace rawLine) headerData"
  shows "processLines_loop_plain s c =
    (if TrimPrefix (TrimSpace rawLine) headerData = ''[DONE]''
     then ((0, Some io_EOF), s\<lparr>Reader := rd, isFinished := True\<rparr>)
     else (case Unmarshal_response (Unmarshaler s) (TrimPrefix (TrimSpace rawLine) headerData) of
             Inl unmarshalErr \<Rightarrow> ((0, Some unmarshalErr), s\<lparr>Reader := rd\<rparr>)
           | Inr response \<Rightarrow> ((response, None), s\<lparr>Reader := rd\<rparr>)))"
  using assms by (subst processLines_loop_plain.simps) (simp add: Let_def)

subsection \<open>After the sentinel\<close>

text \<open>
  C1. Once the finished flag of a session is set, every further call of \<^verbatim>\<open>Recv\<close>, in
  either variant, returns \<^verbatim>\<open>io.EOF\<close> with the zero response and leaves the session as
  it is: in particular the line source is not read, so its count of reads and its
  pending bytes stay what they were. Stated for any number \<open>n\<close> of successive calls.
\<close>

theorem finished_is_idempotent:
  assumes "isFinished s"
  shows "successive Recv n s = (replicate n (0, Some io_EOF), s) \<and>
         successive Recv_plain n s = (replicate n (0, Some io_EOF), s)"
  using assms by (induction n) (simp_all add: Recv_def Recv_plain_def)

theorem finished_is_idempotent_witness:
  "isFinished ((exampleStream 2 ''data: 1\<newline>'')\<lparr>isFinished := True\<rparr>) \<and>
   successive Recv 3 ((exampleStream 2 ''data: 1\<newline>'')\<lparr>isFinished := True\<rparr>) =
     ([(0, Some io_EOF), (0, Some io_EOF), (0, Some io_EOF)],
      (exampleStream 2 ''data: 1\<newline>'')\<lparr>isFinished := True\<rparr>) \<and>
   calls (Reader (snd (successive Recv_plain 3
     ((exampleStream 2 ''data: 1\<newline>'')\<lparr>isFinished := True\<rparr>)))) = 0"
  using finished_is_idempotent [of "(exampleStream 2 ''data: 1\<newline>'')\<lparr>isFinished := True\<rparr>" 3]
  by (simp add: exampleStream_def numeral_3_eq_3)

subsection \<open>A failed read\<close>

text \<open>
  C2 as the claim states it fails where the accumulated bytes decode to an envelope
  that carries no inner detail. The claim sends every case without a non-empty detail
  to the read error; lines 52 to 55 test only whether an envelope was decoded, so the
  call fails with the error that wraps the absent detail. Here a line without the
  \<^verbatim>\<open>data: \<close> prefix is accumulated, the body ends, and the call does not return
  \<^verbatim>\<open>io.EOF\<close>.
\<close>

theorem read_failure_counterexample:
  \<open>Unmarshal_ErrorResponse exampleUnmarshaler ''{"error":null,"id":7}''
     = Inr (Some \<lparr>Error = None\<rparr>) \<and>
   Recv (exampleStream 2 ''{"error":null,"id":7}\<newline>'')
     = ((0, Some (Errorf_error None)),
        (exampleStream 2 [])
          \<lparr>Reader := \<lparr>pending = [], rd_err = io_EOF, calls = 2\<rparr>,
           ErrAccumulator := DefaultErrorAccumulator ''{"error":null,"id":7}''\<rparr>) \<and>
   Recv_plain (exampleStream 2 ''{"error":null,"id":7}\<newline>'')
     = ((0, Some (Errorf_error None)),
        (exampleStream 2 [])
          \<lparr>Reader := \<lparr>pending = [], rd_err = io_EOF, calls = 2\<rparr>,
           ErrAccumulator := DefaultErrorAccumulator ''{"error":null,"id":7}''\<rparr>) \<and>
   fst (Recv (exampleStream 2 ''{"error":null,"id":7}\<newline>'')) \<noteq> (0, Some io_EOF) \<and>
   fst (Recv_plain (exampleStream 2 ''{"error":null,"id":7}\<newline>'')) \<noteq> (0, Some io_EOF)\<close>
  by (simp add: run_simps)

text \<open>
  C2, amended. When the read of a line fails, in any iteration of the loop of either
  variant (so for any value of the two local variables), the accumulated bytes are
  decoded. If the accumulator is not empty and its bytes decode to an envelope with an
  inner error detail, the call fails with \<^verbatim>\<open>fmt.Errorf("error, %w", detail)\<close> rather
  than with the read error. If the accumulator is empty, or its bytes do not decode, or
  the decoder accepts them and leaves no envelope, the call returns the read error
  itself. The session changes in its line source only.
\<close>

theorem read_failure_decodes_accumulator:
  assumes "ReadBytes (Reader s) newline = ((rawLine, Some readErr), rd)"
  shows "(Bytes (ErrAccumulator s) \<noteq> [] \<and>
          Unmarshal_ErrorResponse (Unmarshaler s) (Bytes (ErrAccumulator s))
            = Inr (Some \<lparr>Error = Some detail\<rparr>) \<longrightarrow>
            processLines_loop s c h = ((0, Some (Errorf_error (Some detail))), s\<lparr>Reader := rd\<rparr>) \<and>
            processLines_loop_plain s c = ((0, Some (Errorf_error (Some detail))), s\<lparr>Reader := rd\<rparr>)) \<and>
         (Bytes (ErrAccumulator s) = [] \<or>
          (\<exists>err. Unmarshal_ErrorResponse (Unmarshaler s) (Bytes (ErrAccumulator s)) = Inl err) \<or>
          Unmarshal_ErrorResponse (Unmarshaler s) (Bytes (ErrAccumulator s)) = Inr None \<longrightarrow>
            processLines_loop s c h = ((0, Some readErr), s\<lparr>Reader := rd\<rparr>) \<and>
            processLines_loop_plain s c = ((0, Some readErr), s\<lparr>Reader := rd\<rparr>))"
proof -
  have 1: "processLines_loop s c h =
    (case unmarshalError s of
       Some respErr \<Rightarrow> ((0, Some (Errorf_error (Error respErr))), s\<lparr>Reader := rd\<rparr>)
     | None \<Rightarrow> ((0, Some readErr), s\<lparr>Reader := rd\<rparr>))"
    using assms by (simp add: loop_error_path)
  have 2: "processLines_loop_plain s c =
    (case unmarshalError s of
       Some respErr \<Rightarrow> ((0, Some (Errorf_error (Error respErr))), s\<lparr>Reader := rd\<rparr>)
     | None \<Rightarrow> ((0, Some readErr), s\<lparr>Reader := rd\<rparr>))"
    using assms by (rule plain_error_path)
  show ?thesis
    unfolding 1 2 by (auto simp: unmarshalError_def Let_def)
qed

text \<open>
  The witness runs \<^verbatim>\<open>Recv\<close> on two sessions whose body has ended. In the first the
  accumulator holds an error object that was sent without the \<^verbatim>\<open>data: \<close> prefix; in
  the second it is empty and the body stops in the middle of a line.
\<close>

theorem read_failure_decodes_accumulator_witness:
  \<open>ReadBytes (Reader ((exampleStream 2 [])
       \<lparr>ErrAccumulator := DefaultErrorAccumulator ''{"error":{"message":"bad request"}}''\<rparr>)) newline
     = (([], Some io_EOF), \<lparr>pending = [], rd_err = io_EOF, calls = 1\<rparr>) \<and>
   Bytes (ErrAccumulator ((exampleStream 2 [])
       \<lparr>ErrAccumulator := DefaultErrorAccumulator ''{"error":{"message":"bad request"}}''\<rparr>)) \<noteq> [] \<and>
   Unmarshal_ErrorResponse exampleUnmarshaler ''{"error":{"message":"bad request"}}''
     = Inr (Some \<lparr>Error = Some ''bad request''\<rparr>) \<and>
   fst (Recv ((exampleStream 2 [])
       \<lparr>ErrAccumulator := DefaultErrorAccumulator ''{"error":{"message":"bad request"}}''\<rparr>))
     = (0, Some (Errorf_error (Some ''bad request''))) \<and>
   fst (Recv_plain ((exampleStream 2 [])
       \<lparr>ErrAccumulator := DefaultErrorAccumulator ''{"error":{"message":"bad request"}}''\<rparr>))
     = (0, Some (Errorf_error (Some ''bad request''))) \<and>
   ReadBytes (Reader (exampleStream 2 ''data: 1'')) newline
     = ((''data: 1'', Some io_EOF), \<lparr>pending = [], rd_err = io_EOF, calls = 1\<rparr>) \<and>
   Bytes (ErrAccumulator (exampleStream 2 ''data: 1'')) = [] \<and>
   fst (Recv (exampleStream 2 ''data: 1'')) = (0, Some io_EOF) \<and>
   fst (Recv_plain (exampleStream 2 ''data: 1'')) = (0, Some io_EOF)\<close>
  using
    read_failure_decodes_accumulator [where
      s = \<open>(exampleStream 2 [])\<lparr>ErrAccumulator := DefaultErrorAccumulator ''{"error":{"message":"bad request"}}''\<rparr>\<close>
      and rawLine = "[]" and readErr = io_EOF
      and rd = "\<lparr>pending = [], rd_err = io_EOF, calls = 1\<rparr>"
      and detail = "''bad request''" and c = 0 and h = False]
    read_failure_decodes_accumulator [where
      s = "exampleStream 2 ''data: 1''"
      and rawLine = "''data: 1''" and readErr = io_EOF
      and rd = "\<lparr>pending = [], rd_err = io_EOF, calls = 1\<rparr>"
      and c = 0 and h = False]
  by (simp add: Recv_def Recv_plain_def processLines_def processLines_plain_def
      exampleStream_def exampleUnmarshaler_def ReadBytes_def newline_def)

subsection \<open>The sentinel\<close>

text \<open>
  C3. When the loop has read a line and trims it (in the variant with inline error
  detection it gets there with \<^verbatim>\<open>hasErrorPrefix\<close> false, since lines 51 to 57 return
  otherwise), and the trimmed line carries the prefix \<^verbatim>\<open>data: \<close> with \<^verbatim>\<open>[DONE]\<close> as the
  rest, then the call sets the finished flag and returns \<^verbatim>\<open>io.EOF\<close> with the zero
  response; nothing else of the session changes but the line source. Both variants.
\<close>

theorem done_sentinel_finishes:
  assumes "ReadBytes (Reader s) newline = ((rawLine, None), rd)"
    and "HasPrefix (TrimSpace rawLine) headerData"
    and "TrimPrefix (TrimSpace rawLine) headerData = ''[DONE]''"
  shows "processLines_loop s c False = ((0, Some io_EOF), s\<lparr>Reader := rd, isFinished := True\<rparr>) \<and>
         processLines_loop_plain s c = ((0, Some io_EOF), s\<lparr>Reader := rd, isFinished := True\<rparr>)"
  using assms by (simp add: loop_payload plain_payload DONE_not_error)

theorem done_sentinel_finishes_witness:
  "ReadBytes (Reader (exampleStream 2 '' data: [DONE] \<newline>data: 1\<newline>'')) newline
     = (('' data: [DONE] \<newline>'', None), \<lparr>pending = ''data: 1\<newline>'', rd_err = io_EOF, calls = 1\<rparr>) \<and>
   HasPrefix (TrimSpace '' data: [DONE] \<newline>'') headerData \<and>
   TrimPrefix (TrimSpace '' data: [DONE] \<newline>'') headerData = ''[DONE]'' \<and>
   Recv (exampleStream 2 '' data: [DONE] \<newline>data: 1\<newline>'')
     = ((0, Some io_EOF),
        (exampleStream 2 ''data: 1\<newline>'')
          \<lparr>Reader := \<lparr>pending = ''data: 1\<newline>'', rd_err = io_EOF, calls = 1\<rparr>,
           isFinished := True\<rparr>) \<and>
   Recv_plain (exampleStream 2 '' data: [DONE] \<newline>data: 1\<newline>'')
     = ((0, Some io_EOF),
        (exampleStream 2 ''data: 1\<newline>'')
          \<lparr>Reader := \<lparr>pending = ''data: 1\<newline>'', rd_err = io_EOF, calls = 1\<rparr>,
           isFinished := True\<rparr>)"
  using done_sentinel_finishes [where
      s = "exampleStream 2 '' data: [DONE] \<newline>data: 1\<newline>''"
      and rawLine = "'' data: [DONE] \<newline>''"
      and rd = "\<lparr>pending = ''data: 1\<newline>'', rd_err = io_EOF, calls = 1\<rparr>" and c = 0]
  by (simp add: Recv_def Recv_plain_def processLines_def processLines_plain_def
      exampleStream_def ReadBytes_def newline_def TrimSpace_def stripRunes.simps spaceRunes_def
      HasPrefix_def TrimPrefix_def headerData_def)

subsection \<open>A payload that does not decode\<close>

text \<open>
  C9 as the claim states it fails in the variant with inline error detection: a line
  such as \<^verbatim>\<open>data: {"error":x\<close> carries the prefix, its payload is not the
  sentinel and does not decode, and yet the call does not return the decoder's error.
  The line is written to the accumulator and the call ends in the error path of the next
  iteration (here with a \<^verbatim>\<open>nil\<close> error).
\<close>

theorem decode_failure_counterexample:
  \<open>HasPrefix (TrimSpace ''data: {"error":x\<newline>'') headerData \<and>
   TrimPrefix (TrimSpace ''data: {"error":x\<newline>'') headerData \<noteq> ''[DONE]'' \<and>
   Unmarshal_response exampleUnmarshaler
       (TrimPrefix (TrimSpace ''data: {"error":x\<newline>'') headerData)
     = Inl (Failure ''invalid character'') \<and>
   fst (Recv (exampleStream 2 ''data: {"error":x\<newline>data: 1\<newline>''))
     \<noteq> (0, Some (Failure ''invalid character'')) \<and>
   Recv (exampleStream 2 ''data: {"error":x\<newline>data: 1\<newline>'')
     = ((0, None),
        (exampleStream 2 [])
          \<lparr>Reader := \<lparr>pending = [], rd_err = io_EOF, calls = 2\<rparr>,
           ErrAccumulator := DefaultErrorAccumulator ''{"error":x''\<rparr>)\<close>
  by (simp add: run_simps)

text \<open>
  C9, amended. When the loop has read a line and trims it, the trimmed line carries the
  prefix \<^verbatim>\<open>data: \<close>, the payload behind the prefix is not \<^verbatim>\<open>[DONE]\<close> and the decoder
  rejects it, then the call returns the decoder's error with the zero response, and
  the session changes in its line source only (the accumulator is neither written nor
  decoded). This holds in the variant without inline error detection; in the variant
  with it, it holds for the lines that do not begin with \<^verbatim>\<open>data: {"error":\<close>.
\<close>

theorem decode_failure_is_returned:
  assumes "ReadBytes (Reader s) newline = ((rawLine, None), rd)"
    and "HasPrefix (TrimSpace rawLine) headerData"
    and "TrimPrefix (TrimSpace rawLine) headerData \<noteq> ''[DONE]''"
    and "Unmarshal_response (Unmarshaler s) (TrimPrefix (TrimSpace rawLine) headerData) = Inl err"
  shows "processLines_loop_plain s c = ((0, Some err), s\<lparr>Reader := rd\<rparr>) \<and>
         (\<not> HasPrefix (TrimSpace rawLine) errorPrefix \<longrightarrow>
            processLines_loop s c False = ((0, Some err), s\<lparr>Reader := rd\<rparr>))"
  using assms by (simp add: loop_payload plain_payload)

theorem decode_failure_is_returned_witness:
  \<open>ReadBytes (Reader (exampleStream 2 ''data: {not valid json\<newline>'')) newline
     = ((''data: {not valid json\<newline>'', None), \<lparr>pending = [], rd_err = io_EOF, calls = 1\<rparr>) \<and>
   HasPrefix (TrimSpace ''data: {not valid json\<newline>'') headerData \<and>
   \<not> HasPrefix (TrimSpace ''data: {not valid json\<newline>'') errorPrefix \<and>
   TrimPrefix (TrimSpace ''data: {not valid json\<newline>'') headerData \<noteq> ''[DONE]'' \<and>
   Unmarshal_response exampleUnmarshaler
       (TrimPrefix (TrimSpace ''data: {not valid json\<newline>'') headerData)
     = Inl (Failure ''invalid character'') \<and>
   Recv (exampleStream 2 ''data: {not valid json\<newline>'')
     = ((0, Some (Failure ''invalid character'')),
        (exampleStream 2 [])\<lparr>Reader := \<lparr>pending = [], rd_err = io_EOF, calls = 1\<rparr>\<rparr>) \<and>
   Recv_plain (exampleStream 2 ''data: {not valid json\<newline>'')
     = ((0, Some (Failure ''invalid character'')),
        (exampleStream 2 [])\<lparr>Reader := \<lparr>pending = [], rd_err = io_EOF, calls = 1\<rparr>\<rparr>)\<close>
  using decode_failure_is_returned [where
      s = "exampleStream 2 ''data: {not valid json\<newline>''"
      and rawLine = "''data: {not valid json\<newline>''"
      and rd = "\<lparr>pending = [], rd_err = io_EOF, calls = 1\<rparr>"
      and err = "Failure ''invalid character''" and c = 0]
  by (simp add: Recv_def Recv_plain_def processLines_def processLines_plain_def
      exampleStream_def exampleUnmarshaler_def ReadBytes_def newline_def TrimSpace_def
      stripRunes.simps spaceRunes_def HasPrefix_def TrimPrefix_def headerData_def errorPrefix_def)

subsection \<open>Error objects sent inline\<close>

text \<open>A line that begins with \<^verbatim>\<open>data: {"error":\<close> raises the flag, is written to the
  accumulator without its prefix, and the loop goes on, unless the write fails or the
  counter passes the limit.\<close>

lemma error_line_step:
  assumes "ReadBytes (Reader s) newline = ((rawLine, None), rd)"
    and "HasPrefix (TrimSpace rawLine) errorPrefix"
    and "Write (ErrAccumulator s) (TrimPrefix (TrimSpace rawLine) headerData) = (None, acc)"
    and "\<not> c + 1 > EmptyMessagesLimit s"
  shows "processLines_loop s c False =
         processLines_loop (s\<lparr>Reader := rd, ErrAccumulator := acc\<rparr>) (c + 1) True"
  using assms by (simp add: loop_accumulate [where writeErr = None and acc = acc])

text \<open>
  C10. In the variant with inline error detection: a line that begins with
  \<^verbatim>\<open>data: {"error":\<close> is read and accumulated, the loop goes on to the next read, that
  read succeeds, and the accumulated bytes do not decode. Then the call returns the
  zero response together with a \<^verbatim>\<open>nil\<close> error.
\<close>

theorem undecodable_inline_error_yields_nil:
  assumes "ReadBytes (Reader s) newline = ((rawLine, None), rd)"
    and "HasPrefix (TrimSpace rawLine) errorPrefix"
    and "Write (ErrAccumulator s) (TrimPrefix (TrimSpace rawLine) headerData) = (None, acc)"
    and "\<not> c + 1 > EmptyMessagesLimit s"
    and "ReadBytes rd newline = ((rawLine', None), rd')"
    and "Unmarshal_ErrorResponse (Unmarshaler s) (Bytes acc) = Inl err"
  shows "processLines_loop s c False = ((0, None), s\<lparr>Reader := rd', ErrAccumulator := acc\<rparr>)"
proof -
  let ?s = "s\<lparr>Reader := rd, ErrAccumulator := acc\<rparr>"
  have "processLines_loop s c False = processLines_loop ?s (c + 1) True"
    using assms(1-4) by (rule error_line_step)
  also have "\<dots> = (case unmarshalError ?s of
       Some respErr \<Rightarrow> ((0, Some (Errorf_error (Error respErr))), ?s\<lparr>Reader := rd'\<rparr>)
     | None \<Rightarrow> ((0, None), ?s\<lparr>Reader := rd'\<rparr>))"
    using assms(5) by (intro loop_error_path) simp_all
  also have "unmarshalError ?s = None"
    using assms(6) by (simp add: unmarshalError_def Let_def)
  finally show ?thesis by simp
qed

theorem undecodable_inline_error_yields_nil_witness:
  \<open>ReadBytes (Reader (exampleStream 1 ''data: {"error": oops}\<newline>\<newline>'')) newline
     = ((''data: {"error": oops}\<newline>'', None), \<lparr>pending = ''\<newline>'', rd_err = io_EOF, calls = 1\<rparr>) \<and>
   HasPrefix (TrimSpace ''data: {"error": oops}\<newline>'') errorPrefix \<and>
   Write (ErrAccumulator (exampleStream 1 ''data: {"error": oops}\<newline>\<newline>''))
       (TrimPrefix (TrimSpace ''data: {"error": oops}\<newline>'') headerData)
     = (None, DefaultErrorAccumulator ''{"error": oops}'') \<and>
   \<not> (0::64 word) + 1 > EmptyMessagesLimit (exampleStream 1 ''data: {"error": oops}\<newline>\<newline>'') \<and>
   ReadBytes \<lparr>pending = ''\<newline>'', rd_err = io_EOF, calls = 1\<rparr> newline
     = ((''\<newline>'', None), \<lparr>pending = [], rd_err = (io_EOF :: string error), calls = 2\<rparr>) \<and>
   Unmarshal_ErrorResponse exampleUnmarshaler (Bytes (DefaultErrorAccumulator ''{"error": oops}''))
     = Inl (Failure ''invalid character'') \<and>
   Recv (exampleStream 1 ''data: {"error": oops}\<newline>\<newline>'')
     = ((0, None),
        (exampleStream 1 [])
          \<lparr>Reader := \<lparr>pending = [], rd_err = io_EOF, calls = 2\<rparr>,
           ErrAccumulator := DefaultErrorAccumulator ''{"error": oops}''\<rparr>)\<close>
  using undecodable_inline_error_yields_nil [where
      s = \<open>exampleStream 1 ''data: {"error": oops}\<newline>\<newline>''\<close>
      and rawLine = \<open>''data: {"error": oops}\<newline>''\<close>
      and rd = "\<lparr>pending = ''\<newline>'', rd_err = io_EOF, calls = 1\<rparr>"
      and acc = \<open>DefaultErrorAccumulator ''{"error": oops}''\<close>
      and c = 0 and rawLine' = "''\<newline>''"
      and rd' = "\<lparr>pending = [], rd_err = io_EOF, calls = 2\<rparr>"
      and err = "Failure ''invalid character''"]
  by (simp add: Recv_def processLines_def
      exampleStream_def exampleUnmarshaler_def ReadBytes_def newline_def TrimSpace_def
      stripRunes.simps spaceRunes_def HasPrefix_def TrimPrefix_def headerData_def errorPrefix_def)

text \<open>
  C4 as the claim states it fails when the line that carries the error object is also
  the one that takes the counter of empty messages past the limit: here the limit is 0,
  the call fails with \<^verbatim>\<open>ErrTooManyEmptyStreamMessages\<close> after a single read, and the
  accumulated error object, which would decode, is never decoded.
\<close>

theorem inline_error_line_counterexample:
  \<open>HasPrefix (TrimSpace ''data: {"error":{"message":"bad request"}}\<newline>'') errorPrefix \<and>
   Unmarshal_ErrorResponse exampleUnmarshaler ''{"error":{"message":"bad request"}}''
     = Inr (Some \<lparr>Error = Some ''bad request''\<rparr>) \<and>
   Recv (exampleStream 0 ''data: {"error":{"message":"bad request"}}\<newline>data: 1\<newline>'')
     = ((0, Some ErrTooManyEmptyStreamMessages),
        (exampleStream 0 [])
          \<lparr>Reader := \<lparr>pending = ''data: 1\<newline>'', rd_err = io_EOF, calls = 1\<rparr>,
           ErrAccumulator := DefaultErrorAccumulator ''{"error":{"message":"bad request"}}''\<rparr>)\<close>
  by (simp add: run_simps)

text \<open>
  C4, amended. In the variant with inline error detection, with the byte-buffer
  accumulator: when the loop has read a line whose trimmed form begins with
  \<^verbatim>\<open>data: {"error":\<close>, the trimmed line, stripped of \<^verbatim>\<open>data: \<close>, is appended to the
  accumulator. If the counter of empty messages, incremented for this line, exceeds
  \<^verbatim>\<open>EmptyMessagesLimit\<close>, the call fails with \<^verbatim>\<open>ErrTooManyEmptyStreamMessages\<close> and
  has made this one read only. Otherwise the call goes into the next iteration with the
  flag raised, and whatever the next read returns (a line of any kind, or a failure),
  the result of the call is that of the error path: the wrapped inner detail if the
  accumulated bytes decode to an envelope, the result of that read otherwise.
\<close>

theorem inline_error_line_takes_error_path:
  assumes "ErrAccumulator s = DefaultErrorAccumulator buf"
    and "ReadBytes (Reader s) newline = ((rawLine, None), rd)"
    and "HasPrefix (TrimSpace rawLine) errorPrefix"
    and "acc = DefaultErrorAccumulator (buf @ TrimPrefix (TrimSpace rawLine) headerData)"
  shows "processLines_loop s c False =
           (if c + 1 > EmptyMessagesLimit s
            then ((0, Some ErrTooManyEmptyStreamMessages), s\<lparr>Reader := rd, ErrAccumulator := acc\<rparr>)
            else processLines_loop (s\<lparr>Reader := rd, ErrAccumulator := acc\<rparr>) (c + 1) True) \<and>
         (\<not> c + 1 > EmptyMessagesLimit s \<and>
          ReadBytes rd newline = ((rawLine', readErr'), rd') \<longrightarrow>
            processLines_loop s c False =
              (case unmarshalError (s\<lparr>ErrAccumulator := acc\<rparr>) of
                 Some respErr \<Rightarrow>
                   ((0, Some (Errorf_error (Error respErr))),
                    s\<lparr>Reader := rd', ErrAccumulator := acc\<rparr>)
               | None \<Rightarrow> ((0, readErr'), s\<lparr>Reader := rd', ErrAccumulator := acc\<rparr>)))"
proof (intro conjI impI; (elim conjE)?)
  let ?s = "s\<lparr>Reader := rd, ErrAccumulator := acc\<rparr>"
  have w: "Write (ErrAccumulator s)
       (if HasPrefix (TrimSpace rawLine) errorPrefix
        then TrimPrefix (TrimSpace rawLine) headerData else TrimSpace rawLine) = (None, acc)"
    by (simp add: assms(1,3,4))
  show step: "processLines_loop s c False =
      (if c + 1 > EmptyMessagesLimit s
       then ((0, Some ErrTooManyEmptyStreamMessages), ?s)
       else processLines_loop ?s (c + 1) True)"
    using loop_accumulate [OF assms(2) disjI2 [OF assms(3)] w, of c] assms(3) by simp
  assume ok: "\<not> c + 1 > EmptyMessagesLimit s"
    and read': "ReadBytes rd newline = ((rawLine', readErr'), rd')"
  have 2: "processLines_loop ?s (c + 1) True =
     (case unmarshalError ?s of
       Some respErr \<Rightarrow> ((0, Some (Errorf_error (Error respErr))), ?s\<lparr>Reader := rd'\<rparr>)
     | None \<Rightarrow> ((0, readErr'), ?s\<lparr>Reader := rd'\<rparr>))"
    using read' by (intro loop_error_path) simp_all
  have 3: "?s\<lparr>Reader := rd'\<rparr> = s\<lparr>Reader := rd', ErrAccumulator := acc\<rparr>"
    by simp
  have 4: "unmarshalError ?s = unmarshalError (s\<lparr>ErrAccumulator := acc\<rparr>)"
    by (simp add: unmarshalError_def Let_def)
  show "processLines_loop s c False =
      (case unmarshalError (s\<lparr>ErrAccumulator := acc\<rparr>) of
         Some respErr \<Rightarrow>
           ((0, Some (Errorf_error (Error respErr))), s\<lparr>Reader := rd', ErrAccumulator := acc\<rparr>)
       | None \<Rightarrow> ((0, readErr'), s\<lparr>Reader := rd', ErrAccumulator := acc\<rparr>))"
    using step ok 2 unfolding 3 4 by simp
qed

theorem inline_error_line_takes_error_path_witness:
  \<open>ErrAccumulator (exampleStream 1 ''data: {"error":{"message":"bad request"}}\<newline>data: 1\<newline>'')
     = DefaultErrorAccumulator [] \<and>
   ReadBytes (Reader (exampleStream 1 ''data: {"error":{"message":"bad request"}}\<newline>data: 1\<newline>'')) newline
     = ((''data: {"error":{"message":"bad request"}}\<newline>'', None),
        \<lparr>pending = ''data: 1\<newline>'', rd_err = io_EOF, calls = 1\<rparr>) \<and>
   HasPrefix (TrimSpace ''data: {"error":{"message":"bad request"}}\<newline>'') errorPrefix \<and>
   \<not> (0::64 word) + 1
       > EmptyMessagesLimit (exampleStream 1 ''data: {"error":{"message":"bad request"}}\<newline>data: 1\<newline>'') \<and>
   ReadBytes \<lparr>pending = ''data: 1\<newline>'', rd_err = io_EOF, calls = 1\<rparr> newline
     = ((''data: 1\<newline>'', None), \<lparr>pending = [], rd_err = (io_EOF :: string error), calls = 2\<rparr>) \<and>
   TrimPrefix (TrimSpace ''data: {"error":{"message":"bad request"}}\<newline>'') headerData
     = ''{"error":{"message":"bad request"}}'' \<and>
   Recv (exampleStream 1 ''data: {"error":{"message":"bad request"}}\<newline>data: 1\<newline>'')
     = ((0, Some (Errorf_error (Some ''bad request''))),
        (exampleStream 1 [])
          \<lparr>Reader := \<lparr>pending = [], rd_err = io_EOF, calls = 2\<rparr>,
           ErrAccumulator := DefaultErrorAccumulator ''{"error":{"message":"bad request"}}''\<rparr>) \<and>
   (0::64 word) + 1 > EmptyMessagesLimit (exampleStream 0 ''data: {"error": oops}\<newline>data: 2\<newline>'') \<and>
   Recv (exampleStream 0 ''data: {"error": oops}\<newline>data: 2\<newline>'')
     = ((0, Some ErrTooManyEmptyStreamMessages),
        (exampleStream 0 [])
          \<lparr>Reader := \<lparr>pending = ''data: 2\<newline>'', rd_err = io_EOF, calls = 1\<rparr>,
           ErrAccumulator := DefaultErrorAccumulator ''{"error": oops}''\<rparr>)\<close>
  using inline_error_line_takes_error_path [where
      s = \<open>exampleStream 1 ''data: {"error":{"message":"bad request"}}\<newline>data: 1\<newline>''\<close>
      and buf = "[]"
      and rawLine = \<open>''data: {"error":{"message":"bad request"}}\<newline>''\<close>
      and rd = "\<lparr>pending = ''data: 1\<newline>'', rd_err = io_EOF, calls = 1\<rparr>"
      and c = 0 and rawLine' = "''data: 1\<newline>''" and readErr' = None
      and rd' = "\<lparr>pending = [], rd_err = io_EOF, calls = 2\<rparr>"
      and acc = \<open>DefaultErrorAccumulator ''{"error":{"message":"bad request"}}''\<close>,
      THEN conjunct2]
    inline_error_line_takes_error_path [where
      s = \<open>exampleStream 0 ''data: {"error": oops}\<newline>data: 2\<newline>''\<close>
      and buf = "[]"
      and rawLine = \<open>''data: {"error": oops}\<newline>''\<close>
      and rd = "\<lparr>pending = ''data: 2\<newline>'', rd_err = io_EOF, calls = 1\<rparr>"
      and c = 0
      and acc = \<open>DefaultErrorAccumulator ''{"error": oops}''\<close>,
      THEN conjunct1]
  by (simp add: Recv_def processLines_def unmarshalError_def
      exampleStream_def exampleUnmarshaler_def ReadBytes_def newline_def TrimSpace_def
      stripRunes.simps spaceRunes_def HasPrefix_def TrimPrefix_def headerData_def errorPrefix_def)

subsection \<open>Lines that are not payload\<close>

lemma ReadBytes_shorter:
  assumes "ReadBytes b newline = ((l, None), b')"
  shows "length (pending b') < length (pending b)"
proof -
  let ?d = "dropWhile (\<lambda>c. c \<noteq> newline) (pending b)"
  from assms have mem: "newline \<in> set (pending b)" and b': "pending b' = tl ?d"
    by (auto simp: ReadBytes_def split: if_splits)
  from mem obtain x xs where cons: "?d = x # xs"
    by (cases ?d) auto
  have "length ?d \<le> length (pending b)"
    by (rule length_dropWhile_le)
  with cons b' show ?thesis
    by simp
qed

lemma ReadBytes_is_line:
  assumes "is_line l" and "pending b = l @ rest"
  shows "ReadBytes b newline = ((l, None), b\<lparr>pending := rest, calls := Suc (calls b)\<rparr>)"
proof -
  from assms(1) have l: "l = butlast l @ [newline]" and no: "newline \<notin> set (butlast l)"
    by (auto simp: is_line_def dest: append_butlast_last_id)
  have p: "pending b = butlast l @ newline # rest"
    using assms(2) l by (metis append_Cons append_Nil append_assoc)
  have t: "takeWhile (\<lambda>c. c \<noteq> newline) (pending b) = butlast l"
    unfolding p using no by (subst takeWhile_append2) auto
  have d: "dropWhile (\<lambda>c. c \<noteq> newline) (pending b) = newline # rest"
    unfolding p using no by (subst dropWhile_append2) auto
  have "newline \<in> set (pending b)"
    unfolding p by simp
  then show ?thesis
    using l by (simp add: ReadBytes_def t d)
qed

lemma nonpayload_step:
  assumes "ErrAccumulator s = DefaultErrorAccumulator buf"
    and "ReadBytes (Reader s) newline = ((rawLine, None), rd)"
    and "\<not> HasPrefix (TrimSpace rawLine) headerData"
  shows "processLines_loop s c False =
      (if c + 1 > EmptyMessagesLimit s
       then ((0, Some ErrTooManyEmptyStreamMessages),
             s\<lparr>Reader := rd, ErrAccumulator := DefaultErrorAccumulator (buf @ TrimSpace rawLine)\<rparr>)
       else processLines_loop
             (s\<lparr>Reader := rd, ErrAccumulator := DefaultErrorAccumulator (buf @ TrimSpace rawLine)\<rparr>)
             (c + 1) False)"
proof -
  from assms(3) have ne: "\<not> HasPrefix (TrimSpace rawLine) errorPrefix"
    by (auto dest: errorPrefix_headerData)
  then have w: "Write (ErrAccumulator s)
       (if HasPrefix (TrimSpace rawLine) errorPrefix
        then TrimPrefix (TrimSpace rawLine) headerData else TrimSpace rawLine)
     = (None, DefaultErrorAccumulator (buf @ TrimSpace rawLine))"
    by (simp add: assms(1))
  show ?thesis
    using loop_accumulate [OF assms(2) disjI1 [OF assms(3)] w, of c] ne by simp
qed

lemma nonpayload_step_plain:
  assumes "ErrAccumulator s = DefaultErrorAccumulator buf"
    and "ReadBytes (Reader s) newline = ((rawLine, None), rd)"
    and "\<not> HasPrefix (TrimSpace rawLine) headerData"
  shows "processLines_loop_plain s c =
      (if c + 1 > EmptyMessagesLimit s
       then ((0, Some ErrTooManyEmptyStreamMessages),
             s\<lparr>Reader := rd, ErrAccumulator := DefaultErrorAccumulator (buf @ TrimSpace rawLine)\<rparr>)
       else processLines_loop_plain
             (s\<lparr>Reader := rd, ErrAccumulator := DefaultErrorAccumulator (buf @ TrimSpace rawLine)\<rparr>)
             (c + 1))"
proof -
  have w: "Write (ErrAccumulator s) (TrimSpace rawLine)
     = (None, DefaultErrorAccumulator (buf @ TrimSpace rawLine))"
    by (simp add: assms(1))
  show ?thesis
    using plain_accumulate [OF assms(2,3) w, of c] by simp
qed

lemma error_line_counted:
  assumes "ErrAccumulator s = DefaultErrorAccumulator buf"
    and "ReadBytes (Reader s) newline = ((rawLine, None), rd)"
    and "HasPrefix (TrimSpace rawLine) errorPrefix"
  shows "processLines_loop s c False =
      (if c + 1 > EmptyMessagesLimit s
       then ((0, Some ErrTooManyEmptyStreamMessages),
             s\<lparr>Reader := rd,
               ErrAccumulator := DefaultErrorAccumulator
                 (buf @ TrimPrefix (TrimSpace rawLine) headerData)\<rparr>)
       else processLines_loop
             (s\<lparr>Reader := rd,
                ErrAccumulator := DefaultErrorAccumulator
                  (buf @ TrimPrefix (TrimSpace rawLine) headerData)\<rparr>)
             (c + 1) True)"
proof -
  have w: "Write (ErrAccumulator s)
       (if HasPrefix (TrimSpace rawLine) errorPrefix
        then TrimPrefix (TrimSpace rawLine) headerData else TrimSpace rawLine)
     = (None, DefaultErrorAccumulator (buf @ TrimPrefix (TrimSpace rawLine) headerData))"
    by (simp add: assms(1,3))
  show ?thesis
    using loop_accumulate [OF assms(2) disjI2 [OF assms(3)] w, of c] assms(3) by simp
qed

text \<open>
  C5. With the byte-buffer accumulator, in both variants: every line that the loop trims
  and whose trimmed form does not begin with \<^verbatim>\<open>data: \<close> adds one to the counter of
  empty messages, and the call fails with \<^verbatim>\<open>ErrTooManyEmptyStreamMessages\<close> at that
  line if the new count exceeds \<^verbatim>\<open>EmptyMessagesLimit\<close> and goes on with the new count
  if it does not. In particular, on an open session with limit 2 whose body starts with
  three such lines, the call reads exactly these three lines and fails with that error
  at the third. The counter decides nothing else: the variant with inline error
  detection puts the lines that begin with \<^verbatim>\<open>data: {"error":\<close> to the same count and
  the same test, and in every other iteration (a failed read, a raised flag, a payload
  line) the result of the loop does not depend on the count.
\<close>

theorem empty_message_limit:
  assumes "ErrAccumulator s = DefaultErrorAccumulator buf"
  shows "(ReadBytes (Reader s) newline = ((rawLine, None), rd) \<and>
          \<not> HasPrefix (TrimSpace rawLine) headerData \<longrightarrow>
            processLines_loop s c False =
              (if c + 1 > EmptyMessagesLimit s
               then ((0, Some ErrTooManyEmptyStreamMessages),
                     s\<lparr>Reader := rd,
                       ErrAccumulator := DefaultErrorAccumulator (buf @ TrimSpace rawLine)\<rparr>)
               else processLines_loop
                     (s\<lparr>Reader := rd,
                        ErrAccumulator := DefaultErrorAccumulator (buf @ TrimSpace rawLine)\<rparr>)
                     (c + 1) False) \<and>
            processLines_loop_plain s c =
              (if c + 1 > EmptyMessagesLimit s
               then ((0, Some ErrTooManyEmptyStreamMessages),
                     s\<lparr>Reader := rd,
                       ErrAccumulator := DefaultErrorAccumulator (buf @ TrimSpace rawLine)\<rparr>)
               else processLines_loop_plain
                     (s\<lparr>Reader := rd,
                        ErrAccumulator := DefaultErrorAccumulator (buf @ TrimSpace rawLine)\<rparr>)
                     (c + 1))) \<and>
         (\<not> isFinished s \<and> EmptyMessagesLimit s = 2 \<and>
          pending (Reader s) = l1 @ l2 @ l3 @ rest \<and>
          is_line l1 \<and> \<not> HasPrefix (TrimSpace l1) headerData \<and>
          is_line l2 \<and> \<not> HasPrefix (TrimSpace l2) headerData \<and>
          is_line l3 \<and> \<not> HasPrefix (TrimSpace l3) headerData \<longrightarrow>
            Recv s =
              ((0, Some ErrTooManyEmptyStreamMessages),
               s\<lparr>Reader := (Reader s)\<lparr>pending := rest, calls := calls (Reader s) + 3\<rparr>,
                 ErrAccumulator := DefaultErrorAccumulator
                   (buf @ TrimSpace l1 @ TrimSpace l2 @ TrimSpace l3)\<rparr>) \<and>
            Recv_plain s =
              ((0, Some ErrTooManyEmptyStreamMessages),
               s\<lparr>Reader := (Reader s)\<lparr>pending := rest, calls := calls (Reader s) + 3\<rparr>,
                 ErrAccumulator := DefaultErrorAccumulator
                   (buf @ TrimSpace l1 @ TrimSpace l2 @ TrimSpace l3)\<rparr>)) \<and>
         (ReadBytes (Reader s) newline = ((rawLine, None), rd) \<and>
          HasPrefix (TrimSpace rawLine) errorPrefix \<longrightarrow>
            processLines_loop s c False =
              (if c + 1 > EmptyMessagesLimit s
               then ((0, Some ErrTooManyEmptyStreamMessages),
                     s\<lparr>Reader := rd,
                       ErrAccumulator := DefaultErrorAccumulator
                         (buf @ TrimPrefix (TrimSpace rawLine) headerData)\<rparr>)
               else processLines_loop
                     (s\<lparr>Reader := rd,
                        ErrAccumulator := DefaultErrorAccumulator
                          (buf @ TrimPrefix (TrimSpace rawLine) headerData)\<rparr>)
                     (c + 1) True)) \<and>
         (ReadBytes (Reader s) newline = ((rawLine, readErr), rd) \<and>
          (readErr \<noteq> None \<or> h) \<longrightarrow>
            processLines_loop s c h = processLines_loop s c' h) \<and>
         (ReadBytes (Reader s) newline = ((rawLine, Some err), rd) \<longrightarrow>
            processLines_loop_plain s c = processLines_loop_plain s c') \<and>
         (ReadBytes (Reader s) newline = ((rawLine, None), rd) \<and>
          HasPrefix (TrimSpace rawLine) headerData \<longrightarrow>
            processLines_loop_plain s c = processLines_loop_plain s c' \<and>
            (\<not> HasPrefix (TrimSpace rawLine) errorPrefix \<longrightarrow>
               processLines_loop s c False = processLines_loop s c' False))"
proof (intro conjI impI; (elim conjE)?)
  assume read: "ReadBytes (Reader s) newline = ((rawLine, None), rd)"
    and np: "\<not> HasPrefix (TrimSpace rawLine) headerData"
  show "processLines_loop s c False =
      (if c + 1 > EmptyMessagesLimit s
       then ((0, Some ErrTooManyEmptyStreamMessages),
             s\<lparr>Reader := rd, ErrAccumulator := DefaultErrorAccumulator (buf @ TrimSpace rawLine)\<rparr>)
       else processLines_loop
             (s\<lparr>Reader := rd, ErrAccumulator := DefaultErrorAccumulator (buf @ TrimSpace rawLine)\<rparr>)
             (c + 1) False)"
    using assms read np by (rule nonpayload_step)
  show "processLines_loop_plain s c =
      (if c + 1 > EmptyMessagesLimit s
       then ((0, Some ErrTooManyEmptyStreamMessages),
             s\<lparr>Reader := rd, ErrAccumulator := DefaultErrorAccumulator (buf @ TrimSpace rawLine)\<rparr>)
       else processLines_loop_plain
             (s\<lparr>Reader := rd, ErrAccumulator := DefaultErrorAccumulator (buf @ TrimSpace rawLine)\<rparr>)
             (c + 1))"
    using assms read np by (rule nonpayload_step_plain)
next
  assume lim: "EmptyMessagesLimit s = 2"
    and p: "pending (Reader s) = l1 @ l2 @ l3 @ rest"
    and l1: "is_line l1" "\<not> HasPrefix (TrimSpace l1) headerData"
    and l2: "is_line l2" "\<not> HasPrefix (TrimSpace l2) headerData"
    and l3: "is_line l3" "\<not> HasPrefix (TrimSpace l3) headerData"
    and "open": "\<not> isFinished s"
  let ?r1 = "(Reader s)\<lparr>pending := l2 @ l3 @ rest, calls := Suc (calls (Reader s))\<rparr>"
  let ?r2 = "(Reader s)\<lparr>pending := l3 @ rest, calls := Suc (Suc (calls (Reader s)))\<rparr>"
  let ?r3 = "(Reader s)\<lparr>pending := rest, calls := calls (Reader s) + 3\<rparr>"
  let ?b1 = "buf @ TrimSpace l1"
  let ?b2 = "buf @ TrimSpace l1 @ TrimSpace l2"
  let ?b3 = "buf @ TrimSpace l1 @ TrimSpace l2 @ TrimSpace l3"
  let ?s1 = "s\<lparr>Reader := ?r1, ErrAccumulator := DefaultErrorAccumulator ?b1\<rparr>"
  let ?s2 = "s\<lparr>Reader := ?r2, ErrAccumulator := DefaultErrorAccumulator ?b2\<rparr>"
  let ?s3 = "s\<lparr>Reader := ?r3, ErrAccumulator := DefaultErrorAccumulator ?b3\<rparr>"
  have rd1: "ReadBytes (Reader s) newline = ((l1, None), ?r1)"
    using l1(1) p by (rule ReadBytes_is_line)
  have rd2: "ReadBytes (Reader ?s1) newline = ((l2, None), ?r2)"
    using ReadBytes_is_line [OF l2(1), of ?r1 "l3 @ rest"] by simp
  have rd3: "ReadBytes (Reader ?s2) newline = ((l3, None), ?r3)"
    using ReadBytes_is_line [OF l3(1), of ?r2 rest] by simp
  have a1: "ErrAccumulator ?s1 = DefaultErrorAccumulator ?b1"
    and a2: "ErrAccumulator ?s2 = DefaultErrorAccumulator ?b2"
    by simp_all
  have "processLines_loop s 0 False = processLines_loop ?s1 1 False"
    using nonpayload_step [OF assms rd1 l1(2), of 0] by (simp add: lim)
  also have "\<dots> = processLines_loop ?s2 2 False"
    using nonpayload_step [OF a1 rd2 l2(2), of 1] by (simp add: lim)
  also have "\<dots> = ((0, Some ErrTooManyEmptyStreamMessages), ?s3)"
    using nonpayload_step [OF a2 rd3 l3(2), of 2] by (simp add: lim)
  finally show "Recv s = ((0, Some ErrTooManyEmptyStreamMessages), ?s3)"
    using "open" by (simp add: Recv_def processLines_def)
  have "processLines_loop_plain s 0 = processLines_loop_plain ?s1 1"
    using nonpayload_step_plain [OF assms rd1 l1(2), of 0] by (simp add: lim)
  also have "\<dots> = processLines_loop_plain ?s2 2"
    using nonpayload_step_plain [OF a1 rd2 l2(2), of 1] by (simp add: lim)
  also have "\<dots> = ((0, Some ErrTooManyEmptyStreamMessages), ?s3)"
    using nonpayload_step_plain [OF a2 rd3 l3(2), of 2] by (simp add: lim)
  finally show "Recv_plain s = ((0, Some ErrTooManyEmptyStreamMessages), ?s3)"
    using "open" by (simp add: Recv_plain_def processLines_plain_def)
next
  assume "ReadBytes (Reader s) newline = ((rawLine, None), rd)"
    and "HasPrefix (TrimSpace rawLine) errorPrefix"
  with assms show "processLines_loop s c False =
      (if c + 1 > EmptyMessagesLimit s
       then ((0, Some ErrTooManyEmptyStreamMessages),
             s\<lparr>Reader := rd,
               ErrAccumulator := DefaultErrorAccumulator
                 (buf @ TrimPrefix (TrimSpace rawLine) headerData)\<rparr>)
       else processLines_loop
             (s\<lparr>Reader := rd,
                ErrAccumulator := DefaultErrorAccumulator
                  (buf @ TrimPrefix (TrimSpace rawLine) headerData)\<rparr>)
             (c + 1) True)"
    by (rule error_line_counted)
next
  assume "ReadBytes (Reader s) newline = ((rawLine, readErr), rd)"
    and "readErr \<noteq> None \<or> h"
  then show "processLines_loop s c h = processLines_loop s c' h"
    by (simp add: loop_error_path [where c = c] loop_error_path [where c = c'])
next
  assume "ReadBytes (Reader s) newline = ((rawLine, Some err), rd)"
  then show "processLines_loop_plain s c = processLines_loop_plain s c'"
    by (simp add: plain_error_path [where c = c] plain_error_path [where c = c'])
next
  assume read: "ReadBytes (Reader s) newline = ((rawLine, None), rd)"
    and hd: "HasPrefix (TrimSpace rawLine) headerData"
  show "processLines_loop_plain s c = processLines_loop_plain s c'"
    using read hd by (simp add: plain_payload [where c = c] plain_payload [where c = c'])
  assume "\<not> HasPrefix (TrimSpace rawLine) errorPrefix"
  with read hd show "processLines_loop s c False = processLines_loop s c' False"
    by (simp add: loop_payload [where c = c] loop_payload [where c = c'])
qed

theorem empty_message_limit_witness:
  \<open>ErrAccumulator (exampleStream 2 ''\<newline>: ping\<newline>\<newline>data: 1\<newline>'') = DefaultErrorAccumulator [] \<and>
   \<not> isFinished (exampleStream 2 ''\<newline>: ping\<newline>\<newline>data: 1\<newline>'') \<and>
   EmptyMessagesLimit (exampleStream 2 ''\<newline>: ping\<newline>\<newline>data: 1\<newline>'') = 2 \<and>
   pending (Reader (exampleStream 2 ''\<newline>: ping\<newline>\<newline>data: 1\<newline>''))
     = ''\<newline>'' @ '': ping\<newline>'' @ ''\<newline>'' @ ''data: 1\<newline>'' \<and>
   is_line ''\<newline>'' \<and> \<not> HasPrefix (TrimSpace ''\<newline>'') headerData \<and>
   is_line '': ping\<newline>'' \<and> \<not> HasPrefix (TrimSpace '': ping\<newline>'') headerData \<and>
   ReadBytes (Reader (exampleStream 2 ''\<newline>: ping\<newline>\<newline>data: 1\<newline>'')) newline
     = ((''\<newline>'', None), \<lparr>pending = '': ping\<newline>\<newline>data: 1\<newline>'', rd_err = io_EOF, calls = 1\<rparr>) \<and>
   Recv (exampleStream 2 ''\<newline>: ping\<newline>\<newline>data: 1\<newline>'')
     = ((0, Some ErrTooManyEmptyStreamMessages),
        (exampleStream 2 [])
          \<lparr>Reader := \<lparr>pending = ''data: 1\<newline>'', rd_err = io_EOF, calls = 3\<rparr>,
           ErrAccumulator := DefaultErrorAccumulator '': ping''\<rparr>) \<and>
   Recv_plain (exampleStream 2 ''\<newline>: ping\<newline>\<newline>data: 1\<newline>'')
     = ((0, Some ErrTooManyEmptyStreamMessages),
        (exampleStream 2 [])
          \<lparr>Reader := \<lparr>pending = ''data: 1\<newline>'', rd_err = io_EOF, calls = 3\<rparr>,
           ErrAccumulator := DefaultErrorAccumulator '': ping''\<rparr>) \<and>
   ReadBytes (Reader ((exampleStream 2 ''data: {"error": oops}\<newline>data: 1\<newline>'')
       \<lparr>ErrAccumulator := DefaultErrorAccumulator '': ping''\<rparr>)) newline
     = ((''data: {"error": oops}\<newline>'', None),
        \<lparr>pending = ''data: 1\<newline>'', rd_err = io_EOF, calls = 1\<rparr>) \<and>
   HasPrefix (TrimSpace ''data: {"error": oops}\<newline>'') errorPrefix \<and>
   processLines_loop ((exampleStream 2 ''data: {"error": oops}\<newline>data: 1\<newline>'')
       \<lparr>ErrAccumulator := DefaultErrorAccumulator '': ping''\<rparr>) 2 False
     = ((0, Some ErrTooManyEmptyStreamMessages),
        (exampleStream 2 [])
          \<lparr>Reader := \<lparr>pending = ''data: 1\<newline>'', rd_err = io_EOF, calls = 1\<rparr>,
           ErrAccumulator := DefaultErrorAccumulator '': ping{"error": oops}''\<rparr>) \<and>
   Recv (exampleStream 2 ''\<newline>: ping\<newline>data: {"error": oops}\<newline>data: 1\<newline>'')
     = ((0, Some ErrTooManyEmptyStreamMessages),
        (exampleStream 2 [])
          \<lparr>Reader := \<lparr>pending = ''data: 1\<newline>'', rd_err = io_EOF, calls = 3\<rparr>,
           ErrAccumulator := DefaultErrorAccumulator '': ping{"error": oops}''\<rparr>) \<and>
   ReadBytes (Reader (exampleStream 2 ''data: 1'')) newline
     = ((''data: 1'', Some io_EOF), \<lparr>pending = [], rd_err = io_EOF, calls = 1\<rparr>) \<and>
   processLines_loop (exampleStream 2 ''data: 1'') 0 False
     = processLines_loop (exampleStream 2 ''data: 1'') 2 False \<and>
   processLines_loop_plain (exampleStream 2 ''data: 1'') 0
     = processLines_loop_plain (exampleStream 2 ''data: 1'') 2 \<and>
   ReadBytes (Reader (exampleStream 2 ''data: 1\<newline>'')) newline
     = ((''data: 1\<newline>'', None), \<lparr>pending = [], rd_err = io_EOF, calls = 1\<rparr>) \<and>
   HasPrefix (TrimSpace ''data: 1\<newline>'') headerData \<and>
   \<not> HasPrefix (TrimSpace ''data: 1\<newline>'') errorPrefix \<and>
   processLines_loop (exampleStream 2 ''data: 1\<newline>'') 0 False
     = processLines_loop (exampleStream 2 ''data: 1\<newline>'') 2 False \<and>
   processLines_loop_plain (exampleStream 2 ''data: 1\<newline>'') 0
     = processLines_loop_plain (exampleStream 2 ''data: 1\<newline>'') 2\<close>
  using empty_message_limit [where
      s = "exampleStream 2 ''\<newline>: ping\<newline>\<newline>data: 1\<newline>''" and buf = "[]"
      and ?l1.0 = "''\<newline>''" and ?l2.0 = "'': ping\<newline>''" and ?l3.0 = "''\<newline>''"
      and rest = "''data: 1\<newline>''", THEN conjunct2, THEN conjunct1]
    empty_message_limit [where
      s = \<open>(exampleStream 2 ''data: {"error": oops}\<newline>data: 1\<newline>'')
        \<lparr>ErrAccumulator := DefaultErrorAccumulator '': ping''\<rparr>\<close>
      and buf = "'': ping''" and c = 2
      and rawLine = \<open>''data: {"error": oops}\<newline>''\<close>
      and rd = "\<lparr>pending = ''data: 1\<newline>'', rd_err = io_EOF, calls = 1\<rparr>",
      THEN conjunct2, THEN conjunct2, THEN conjunct1]
  by (simp add: run_simps is_line_def)

text \<open>
  C8 as the claim states it fails where the line that is appended also takes the counter
  of empty messages past the limit: the call then fails instead of reading on. Here the
  limit is 0; the comment line is appended and the call returns after this single read,
  leaving the payload line unread.
\<close>

theorem nonpayload_line_counterexample:
  "\<not> HasPrefix (TrimSpace '': ping\<newline>'') headerData \<and>
   Recv (exampleStream 0 '': ping\<newline>data: 1\<newline>'')
     = ((0, Some ErrTooManyEmptyStreamMessages),
        (exampleStream 0 [])
          \<lparr>Reader := \<lparr>pending = ''data: 1\<newline>'', rd_err = io_EOF, calls = 1\<rparr>,
           ErrAccumulator := DefaultErrorAccumulator '': ping''\<rparr>) \<and>
   Recv_plain (exampleStream 0 '': ping\<newline>data: 1\<newline>'')
     = ((0, Some ErrTooManyEmptyStreamMessages),
        (exampleStream 0 [])
          \<lparr>Reader := \<lparr>pending = ''data: 1\<newline>'', rd_err = io_EOF, calls = 1\<rparr>,
           ErrAccumulator := DefaultErrorAccumulator '': ping''\<rparr>)"
  by (simp add: run_simps)

text \<open>The accumulator of a session only grows, whatever a call does.\<close>

lemma accumulator_grows_refl [simp]:
  "\<exists>suffix. DefaultErrorAccumulator buf = DefaultErrorAccumulator (buf @ suffix)"
  by (rule exI [of _ "[]"]) simp

lemma loop_accumulator_grows:
  "ErrAccumulator s = DefaultErrorAccumulator buf \<Longrightarrow>
   \<exists>suffix. ErrAccumulator (snd (processLines_loop s c h)) = DefaultErrorAccumulator (buf @ suffix)"
proof (induction "length (pending (Reader s))" arbitrary: s c h buf rule: less_induct)
  case less
  obtain rawLine readErr rd where read: "ReadBytes (Reader s) newline = ((rawLine, readErr), rd)"
    by (metis prod.exhaust)
  let ?t = "TrimSpace rawLine"
  show ?case
  proof (cases "readErr \<noteq> None \<or> h")
    case True
    with read less.prems show ?thesis
      by (auto simp: loop_error_path split: option.splits)
  next
    case False
    then have ok: "readErr = None" and h: "h = False"
      by simp_all
    note read = read [unfolded ok]
    show ?thesis
    proof (cases "\<not> HasPrefix ?t headerData \<or> HasPrefix ?t errorPrefix")
      case True
      let ?x = "if HasPrefix ?t errorPrefix then TrimPrefix ?t headerData else ?t"
      let ?s = "s\<lparr>Reader := rd, ErrAccumulator := DefaultErrorAccumulator (buf @ ?x)\<rparr>"
      have w: "Write (ErrAccumulator s) ?x = (None, DefaultErrorAccumulator (buf @ ?x))"
        by (simp add: less.prems)
      note step = loop_accumulate [OF read True w, of c]
      show ?thesis
      proof (cases "c + 1 > EmptyMessagesLimit s")
        case True
        with step show ?thesis
          unfolding h by auto
      next
        case False
        have "length (pending (Reader ?s)) < length (pending (Reader s))"
          using ReadBytes_shorter [OF read] by simp
        moreover have "ErrAccumulator ?s = DefaultErrorAccumulator (buf @ ?x)"
          by simp
        ultimately obtain suffix where
          "ErrAccumulator (snd (processLines_loop ?s (c + 1) (HasPrefix ?t errorPrefix)))
             = DefaultErrorAccumulator ((buf @ ?x) @ suffix)"
          using less.hyps by blast
        with step False show ?thesis
          unfolding h by (intro exI [of _ "?x @ suffix"]) simp
      qed
    next
      case False
      then have "HasPrefix ?t headerData" and "\<not> HasPrefix ?t errorPrefix"
        by simp_all
      from loop_payload [OF read this, of c] less.prems show ?thesis
        unfolding h by (auto split: sum.splits)
    qed
  qed
qed

lemma plain_accumulator_grows:
  "ErrAccumulator s = DefaultErrorAccumulator buf \<Longrightarrow>
   \<exists>suffix. ErrAccumulator (snd (processLines_loop_plain s c)) = DefaultErrorAccumulator (buf @ suffix)"
proof (induction "length (pending (Reader s))" arbitrary: s c buf rule: less_induct)
  case less
  obtain rawLine readErr rd where read: "ReadBytes (Reader s) newline = ((rawLine, readErr), rd)"
    by (metis prod.exhaust)
  let ?t = "TrimSpace rawLine"
  show ?case
  proof (cases readErr)
    case (Some err)
    with read less.prems show ?thesis
      by (auto simp: plain_error_path split: option.splits)
  next
    case None
    note read = read [unfolded None]
    show ?thesis
    proof (cases "HasPrefix ?t headerData")
      case False
      let ?s = "s\<lparr>Reader := rd, ErrAccumulator := DefaultErrorAccumulator (buf @ ?t)\<rparr>"
      note step = nonpayload_step_plain [OF less.prems read False, of c]
      show ?thesis
      proof (cases "c + 1 > EmptyMessagesLimit s")
        case True
        with step show ?thesis
          by auto
      next
        case False
        have "length (pending (Reader ?s)) < length (pending (Reader s))"
          using ReadBytes_shorter [OF read] by simp
        moreover have "ErrAccumulator ?s = DefaultErrorAccumulator (buf @ ?t)"
          by simp
        ultimately obtain suffix where
          "ErrAccumulator (snd (processLines_loop_plain ?s (c + 1)))
             = DefaultErrorAccumulator ((buf @ ?t) @ suffix)"
          using less.hyps by blast
        with step False show ?thesis
          by (intro exI [of _ "?t @ suffix"]) simp
      qed
    next
      case True
      from plain_payload [OF read True, of c] less.prems show ?thesis
        by (auto split: sum.splits)
    qed
  qed
qed

lemma Recv_accumulator_grows:
  "ErrAccumulator s = DefaultErrorAccumulator buf \<Longrightarrow>
   \<exists>suffix. ErrAccumulator (snd (Recv s)) = DefaultErrorAccumulator (buf @ suffix)"
  using loop_accumulator_grows [of s buf 0 False]
  by (auto simp: Recv_def processLines_def)

lemma Recv_plain_accumulator_grows:
  "ErrAccumulator s = DefaultErrorAccumulator buf \<Longrightarrow>
   \<exists>suffix. ErrAccumulator (snd (Recv_plain s)) = DefaultErrorAccumulator (buf @ suffix)"
  using plain_accumulator_grows [of s buf 0]
  by (auto simp: Recv_plain_def processLines_plain_def)

lemma snd_successive_Suc:
  "snd (successive recv (Suc n) s) = snd (successive recv n (snd (recv s)))"
  by (simp split: prod.splits)

lemma successive_accumulator_grows:
  assumes step: "\<And>s buf. ErrAccumulator s = DefaultErrorAccumulator buf \<Longrightarrow>
      \<exists>suffix. ErrAccumulator (snd (recv s)) = DefaultErrorAccumulator (buf @ suffix)"
  shows "ErrAccumulator s = DefaultErrorAccumulator buf \<Longrightarrow>
      \<exists>suffix. ErrAccumulator (snd (successive recv n s)) = DefaultErrorAccumulator (buf @ suffix)"
proof (induction n arbitrary: s buf)
  case 0
  then show ?case by simp
next
  case (Suc n)
  from step [OF Suc.prems] obtain x where
    "ErrAccumulator (snd (recv s)) = DefaultErrorAccumulator (buf @ x)"
    by blast
  from Suc.IH [OF this] obtain y where
    "ErrAccumulator (snd (successive recv n (snd (recv s)))) = DefaultErrorAccumulator ((buf @ x) @ y)"
    by blast
  then show ?case
    unfolding snd_successive_Suc by (intro exI [of _ "x @ y"]) simp
qed

text \<open>
  C8, amended. With the byte-buffer accumulator, in both variants: a line that the loop
  trims and whose trimmed form does not begin with \<^verbatim>\<open>data: \<close> is appended, trimmed, to
  the accumulator, and the loop then goes on to read the next line unless the counter
  of empty messages, incremented for this line, exceeds \<^verbatim>\<open>EmptyMessagesLimit\<close>, in which
  case the call fails with \<^verbatim>\<open>ErrTooManyEmptyStreamMessages\<close>. The contents of the
  accumulator only grow: after any number of successive calls it holds what it held
  before, followed by what was appended.
\<close>

theorem nonpayload_line_is_accumulated:
  assumes "ErrAccumulator s = DefaultErrorAccumulator buf"
  shows "(ReadBytes (Reader s) newline = ((rawLine, None), rd) \<and>
          \<not> HasPrefix (TrimSpace rawLine) headerData \<and>
          s' = s\<lparr>Reader := rd,
                 ErrAccumulator := DefaultErrorAccumulator (buf @ TrimSpace rawLine)\<rparr> \<longrightarrow>
            Bytes (ErrAccumulator s') = Bytes (ErrAccumulator s) @ TrimSpace rawLine \<and>
            processLines_loop s c False =
              (if c + 1 > EmptyMessagesLimit s
               then ((0, Some ErrTooManyEmptyStreamMessages), s')
               else processLines_loop s' (c + 1) False) \<and>
            processLines_loop_plain s c =
              (if c + 1 > EmptyMessagesLimit s
               then ((0, Some ErrTooManyEmptyStreamMessages), s')
               else processLines_loop_plain s' (c + 1))) \<and>
         (\<exists>suffix. ErrAccumulator (snd (successive Recv n s))
            = DefaultErrorAccumulator (buf @ suffix)) \<and>
         (\<exists>suffix. ErrAccumulator (snd (successive Recv_plain n s))
            = DefaultErrorAccumulator (buf @ suffix))"
proof (intro conjI impI; (elim conjE)?)
  assume read: "ReadBytes (Reader s) newline = ((rawLine, None), rd)"
    and np: "\<not> HasPrefix (TrimSpace rawLine) headerData"
    and s': "s' = s\<lparr>Reader := rd,
        ErrAccumulator := DefaultErrorAccumulator (buf @ TrimSpace rawLine)\<rparr>"
  show "Bytes (ErrAccumulator s') = Bytes (ErrAccumulator s) @ TrimSpace rawLine"
    by (simp add: s' assms)
  show "processLines_loop s c False =
      (if c + 1 > EmptyMessagesLimit s
       then ((0, Some ErrTooManyEmptyStreamMessages), s')
       else processLines_loop s' (c + 1) False)"
    unfolding s' using assms read np by (rule nonpayload_step)
  show "processLines_loop_plain s c =
      (if c + 1 > EmptyMessagesLimit s
       then ((0, Some ErrTooManyEmptyStreamMessages), s')
       else processLines_loop_plain s' (c + 1))"
    unfolding s' using assms read np by (rule nonpayload_step_plain)
next
  show "\<exists>suffix. ErrAccumulator (snd (successive Recv n s)) = DefaultErrorAccumulator (buf @ suffix)"
    using Recv_accumulator_grows assms by (rule successive_accumulator_grows)
  show "\<exists>suffix. ErrAccumulator (snd (successive Recv_plain n s))
      = DefaultErrorAccumulator (buf @ suffix)"
    using Recv_plain_accumulator_grows assms by (rule successive_accumulator_grows)
qed

theorem nonpayload_line_is_accumulated_witness:
  "ErrAccumulator (exampleStream 2 '': ping\<newline>data: 1\<newline>'') = DefaultErrorAccumulator [] \<and>
   ReadBytes (Reader (exampleStream 2 '': ping\<newline>data: 1\<newline>'')) newline
     = (('': ping\<newline>'', None), \<lparr>pending = ''data: 1\<newline>'', rd_err = io_EOF, calls = 1\<rparr>) \<and>
   \<not> HasPrefix (TrimSpace '': ping\<newline>'') headerData \<and>
   \<not> (0::64 word) + 1 > EmptyMessagesLimit (exampleStream 2 '': ping\<newline>data: 1\<newline>'') \<and>
   Recv (exampleStream 2 '': ping\<newline>data: 1\<newline>'')
     = ((1, None),
        (exampleStream 2 [])
          \<lparr>Reader := \<lparr>pending = [], rd_err = io_EOF, calls = 2\<rparr>,
           ErrAccumulator := DefaultErrorAccumulator '': ping''\<rparr>) \<and>
   Recv_plain (exampleStream 2 '': ping\<newline>data: 1\<newline>'')
     = ((1, None),
        (exampleStream 2 [])
          \<lparr>Reader := \<lparr>pending = [], rd_err = io_EOF, calls = 2\<rparr>,
           ErrAccumulator := DefaultErrorAccumulator '': ping''\<rparr>) \<and>
   ErrAccumulator (snd (successive Recv 2 (exampleStream 2 '': ping\<newline>data: 1\<newline>'')))
     = DefaultErrorAccumulator ([] @ '': ping'')"
  using nonpayload_line_is_accumulated [where
      s = "exampleStream 2 '': ping\<newline>data: 1\<newline>''"
      and rawLine = "'': ping\<newline>''"
      and rd = "\<lparr>pending = ''data: 1\<newline>'', rd_err = io_EOF, calls = 1\<rparr>"
      and s' = "(exampleStream 2 '': ping\<newline>data: 1\<newline>'')
          \<lparr>Reader := \<lparr>pending = ''data: 1\<newline>'', rd_err = io_EOF, calls = 1\<rparr>,
           ErrAccumulator := DefaultErrorAccumulator ([] @ TrimSpace '': ping\<newline>'')\<rparr>"
      and c = 0 and buf = "[]" and n = 2]
  by (simp add: run_simps numeral_2_eq_2)

subsection \<open>The two variants\<close>

lemma complete_lines_ReadBytes:
  assumes "ReadBytes b newline = ((rawLine, None), rd)"
  shows "complete_lines (pending b) = rawLine # complete_lines (pending rd)"
proof -
  from assms have "newline \<in> set (pending b)"
    and "rawLine = takeWhile (\<lambda>c. c \<noteq> newline) (pending b) @ [newline]"
    and "pending rd = tl (dropWhile (\<lambda>c. c \<noteq> newline) (pending b))"
    by (auto simp: ReadBytes_def split: if_splits)
  then show ?thesis
    by (subst complete_lines.simps) simp
qed

lemma ReadBytes_failure_pending:
  "ReadBytes b newline = ((rawLine, Some err), rd) \<Longrightarrow> pending rd = []"
  by (auto simp: ReadBytes_def split: if_splits)

lemma no_inline_error_Nil [simp]: "no_inline_error []"
  by (simp add: no_inline_error_def complete_lines.simps)

text \<open>On a body without inline error objects the two loops do the same, and what they
  leave unread is again such a body.\<close>

lemma loops_agree:
  "no_inline_error (pending (Reader s)) \<Longrightarrow>
   processLines_loop s c False = processLines_loop_plain s c \<and>
   no_inline_error (pending (Reader (snd (processLines_loop_plain s c))))"
proof (induction "length (pending (Reader s))" arbitrary: s c rule: less_induct)
  case less
  obtain rawLine readErr rd where read: "ReadBytes (Reader s) newline = ((rawLine, readErr), rd)"
    by (metis prod.exhaust)
  let ?t = "TrimSpace rawLine"
  show ?case
  proof (cases readErr)
    case (Some err)
    note read = read [unfolded Some]
    have "pending rd = []"
      using read by (rule ReadBytes_failure_pending)
    then show ?thesis
      using loop_error_path [OF read, where c = c and h = False] plain_error_path [OF read, of c]
      by (auto split: option.splits)
  next
    case None
    note read = read [unfolded None]
    have lines: "complete_lines (pending (Reader s)) = rawLine # complete_lines (pending rd)"
      using read by (rule complete_lines_ReadBytes)
    with less.prems have ne: "\<not> HasPrefix ?t errorPrefix" and rest: "no_inline_error (pending rd)"
      by (simp_all add: no_inline_error_def)
    show ?thesis
    proof (cases "HasPrefix ?t headerData")
      case True
      from loop_payload [OF read True ne, of c] plain_payload [OF read True, of c] rest
      show ?thesis
        by (auto split: sum.splits)
    next
      case False
      obtain writeErr acc where w: "Write (ErrAccumulator s) ?t = (writeErr, acc)"
        by (cases "Write (ErrAccumulator s) ?t")
      with ne have w': "Write (ErrAccumulator s)
          (if HasPrefix ?t errorPrefix then TrimPrefix ?t headerData else ?t) = (writeErr, acc)"
        by simp
      let ?s = "s\<lparr>Reader := rd, ErrAccumulator := acc\<rparr>"
      note inline = loop_accumulate [OF read disjI1 [OF False] w', of c]
      note plain = plain_accumulate [OF read False w, of c]
      show ?thesis
      proof (cases "writeErr = None \<and> \<not> c + 1 > EmptyMessagesLimit s")
        case True
        have "length (pending (Reader ?s)) < length (pending (Reader s))"
          using ReadBytes_shorter [OF read] by simp
        moreover have "no_inline_error (pending (Reader ?s))"
          using rest by simp
        ultimately have "processLines_loop ?s (c + 1) False = processLines_loop_plain ?s (c + 1) \<and>
            no_inline_error (pending (Reader (snd (processLines_loop_plain ?s (c + 1)))))"
          by (rule less.hyps)
        with inline plain True ne show ?thesis
          by simp
      next
        case False
        with inline plain rest show ?thesis
          by (auto split: option.splits)
      qed
    qed
  qed
qed

lemma Recv_agree:
  assumes "no_inline_error (pending (Reader s))"
  shows "Recv s = Recv_plain s \<and> no_inline_error (pending (Reader (snd (Recv_plain s))))"
  using assms loops_agree [OF assms, of 0]
  by (simp add: Recv_def Recv_plain_def processLines_def processLines_plain_def)

text \<open>
  C6. On every session whose body holds no line that begins, once trimmed, with
  \<^verbatim>\<open>data: {"error":\<close>, any number of successive calls of \<^verbatim>\<open>Recv\<close> gives the same
  results in the two variants and leaves the same session, accumulator included.
\<close>

theorem variants_agree:
  assumes "no_inline_error (pending (Reader s))"
  shows "successive Recv n s = successive Recv_plain n s"
  using assms
proof (induction n arbitrary: s)
  case 0
  show ?case by simp
next
  case (Suc n)
  obtain r s' where rs: "Recv_plain s = (r, s')"
    by (cases "Recv_plain s")
  from Recv_agree [OF Suc.prems] have eq: "Recv s = Recv_plain s"
    and rest: "no_inline_error (pending (Reader s'))"
    by (simp_all add: rs)
  from Suc.IH [OF rest] show ?case
    by (simp add: eq rs)
qed

theorem variants_agree_witness:
  "no_inline_error
     (pending (Reader (exampleStream 2 ''\<newline>data: 1\<newline>data: x\<newline>: ping\<newline>data: [DONE]\<newline>''))) \<and>
   successive Recv 4 (exampleStream 2 ''\<newline>data: 1\<newline>data: x\<newline>: ping\<newline>data: [DONE]\<newline>'')
     = successive Recv_plain 4
         (exampleStream 2 ''\<newline>data: 1\<newline>data: x\<newline>: ping\<newline>data: [DONE]\<newline>'') \<and>
   successive Recv_plain 4
       (exampleStream 2 ''\<newline>data: 1\<newline>data: x\<newline>: ping\<newline>data: [DONE]\<newline>'')
     = ([(1, None), (0, Some (Failure ''invalid character'')), (0, Some io_EOF), (0, Some io_EOF)],
        (exampleStream 2 [])
          \<lparr>Reader := \<lparr>pending = [], rd_err = io_EOF, calls = 5\<rparr>,
           ErrAccumulator := DefaultErrorAccumulator '': ping'',
           isFinished := True\<rparr>)"
  using variants_agree [of "exampleStream 2 ''\<newline>data: 1\<newline>data: x\<newline>: ping\<newline>data: [DONE]\<newline>''" 4]
  by (simp add: run_simps no_inline_error_def complete_lines.simps eval_nat_numeral)

subsection \<open>A compliant stream\<close>

lemma successive_finished:
  "isFinished s \<Longrightarrow> successive Recv n s = (replicate n (0, Some io_EOF), s)"
  "isFinished s \<Longrightarrow> successive Recv_plain n s = (replicate n (0, Some io_EOF), s)"
  by (induction n) (simp_all add: Recv_def Recv_plain_def)

lemma successive_add:
  "successive recv (m + n) s =
     (case successive recv m s of
        (rs, s') \<Rightarrow> (case successive recv n s' of (rs', s'') \<Rightarrow> (rs @ rs', s'')))"
  by (induction m arbitrary: s) (simp_all split: prod.splits)

lemma is_line_data_line:
  "newline \<notin> set p \<Longrightarrow> is_line (data_line p)"
  by (simp add: is_line_def data_line_def headerData_def newline_def butlast_append)

lemma DONE_line:
  "is_line (data_line ''[DONE]'')"
  "HasPrefix (TrimSpace (data_line ''[DONE]'')) headerData"
  "TrimPrefix (TrimSpace (data_line ''[DONE]'')) headerData = ''[DONE]''"
  by (simp_all add: is_line_def data_line_def headerData_def newline_def TrimSpace_def
      stripRunes.simps spaceRunes_def HasPrefix_def TrimPrefix_def)

text \<open>One call on a session whose body starts with an event line.\<close>

lemma Recv_plain_event:
  assumes "\<not> isFinished s" and "event_decodes (Unmarshaler s) p v"
    and "pending (Reader s) = data_line p @ rest"
  shows "Recv_plain s =
    ((v, None), s\<lparr>Reader := (Reader s)\<lparr>pending := rest, calls := Suc (calls (Reader s))\<rparr>\<rparr>)"
proof -
  from assms(2) have "is_line (data_line p)"
    by (simp add: event_decodes_def is_line_data_line)
  then have "ReadBytes (Reader s) newline =
      ((data_line p, None), (Reader s)\<lparr>pending := rest, calls := Suc (calls (Reader s))\<rparr>)"
    using assms(3) by (rule ReadBytes_is_line)
  from plain_payload [OF this, of 0] assms(1,2) show ?thesis
    by (simp add: event_decodes_def Recv_plain_def processLines_plain_def)
qed

lemma Recv_event:
  assumes "\<not> isFinished s" and "event_decodes (Unmarshaler s) p v"
    and "\<not> HasPrefix (TrimSpace (data_line p)) errorPrefix"
    and "pending (Reader s) = data_line p @ rest"
  shows "Recv s =
    ((v, None), s\<lparr>Reader := (Reader s)\<lparr>pending := rest, calls := Suc (calls (Reader s))\<rparr>\<rparr>)"
proof -
  from assms(2) have "is_line (data_line p)"
    by (simp add: event_decodes_def is_line_data_line)
  then have "ReadBytes (Reader s) newline =
      ((data_line p, None), (Reader s)\<lparr>pending := rest, calls := Suc (calls (Reader s))\<rparr>)"
    using assms(4) by (rule ReadBytes_is_line)
  from loop_payload [OF this _ assms(3), of 0] assms(1,2) show ?thesis
    by (simp add: event_decodes_def Recv_def processLines_def)
qed

text \<open>One call on a session whose body starts with the sentinel line.\<close>

lemma Recv_DONE:
  assumes "\<not> isFinished s" and "pending (Reader s) = data_line ''[DONE]'' @ rest"
  shows "Recv s =
      ((0, Some io_EOF),
       s\<lparr>Reader := (Reader s)\<lparr>pending := rest, calls := Suc (calls (Reader s))\<rparr>,
         isFinished := True\<rparr>)"
    and "Recv_plain s =
      ((0, Some io_EOF),
       s\<lparr>Reader := (Reader s)\<lparr>pending := rest, calls := Suc (calls (Reader s))\<rparr>,
         isFinished := True\<rparr>)"
proof -
  have read: "ReadBytes (Reader s) newline =
      ((data_line ''[DONE]'', None), (Reader s)\<lparr>pending := rest, calls := Suc (calls (Reader s))\<rparr>)"
    using DONE_line(1) assms(2) by (rule ReadBytes_is_line)
  have ne: "\<not> HasPrefix (TrimSpace (data_line ''[DONE]'')) errorPrefix"
    using DONE_line(3) by (rule DONE_not_error)
  from loop_payload [OF read DONE_line(2) ne, of 0] assms(1) show "Recv s =
      ((0, Some io_EOF),
       s\<lparr>Reader := (Reader s)\<lparr>pending := rest, calls := Suc (calls (Reader s))\<rparr>,
         isFinished := True\<rparr>)"
    by (simp add: DONE_line(3) Recv_def processLines_def)
  from plain_payload [OF read DONE_line(2), of 0] assms(1) show "Recv_plain s =
      ((0, Some io_EOF),
       s\<lparr>Reader := (Reader s)\<lparr>pending := rest, calls := Suc (calls (Reader s))\<rparr>,
         isFinished := True\<rparr>)"
    by (simp add: DONE_line(3) Recv_plain_def processLines_plain_def)
qed

text \<open>The calls that consume the event lines: one value per call, in order, and the
  session stays open.\<close>

lemma events_plain:
  assumes "list_all2 (event_decodes u) ps vs"
  shows "\<not> isFinished s \<Longrightarrow> Unmarshaler s = u \<Longrightarrow>
    pending (Reader s) = concat (map data_line ps) @ rest \<Longrightarrow>
    successive Recv_plain (length ps) s =
      (map (\<lambda>v. (v, None)) vs,
       s\<lparr>Reader := (Reader s)\<lparr>pending := rest, calls := calls (Reader s) + length ps\<rparr>\<rparr>)"
  using assms
proof (induction ps vs arbitrary: s rule: list_all2_induct)
  case Nil
  then show ?case by simp
next
  case (Cons p ps v vs)
  let ?s = "s\<lparr>Reader := (Reader s)\<lparr>pending := concat (map data_line ps) @ rest,
      calls := Suc (calls (Reader s))\<rparr>\<rparr>"
  have 1: "Recv_plain s = ((v, None), ?s)"
    using Cons.prems Cons.hyps(1) by (intro Recv_plain_event) simp_all
  have 2: "successive Recv_plain (length ps) ?s =
      (map (\<lambda>v. (v, None)) vs,
       ?s\<lparr>Reader := (Reader ?s)\<lparr>pending := rest, calls := calls (Reader ?s) + length ps\<rparr>\<rparr>)"
    using Cons.prems by (intro Cons.IH) simp_all
  show ?case
    by (simp add: 1 2)
qed

lemma events_inline:
  assumes "list_all2 (event_decodes u) ps vs"
  shows "\<not> isFinished s \<Longrightarrow> Unmarshaler s = u \<Longrightarrow>
    \<forall>p \<in> set ps. \<not> HasPrefix (TrimSpace (data_line p)) errorPrefix \<Longrightarrow>
    pending (Reader s) = concat (map data_line ps) @ rest \<Longrightarrow>
    successive Recv (length ps) s =
      (map (\<lambda>v. (v, None)) vs,
       s\<lparr>Reader := (Reader s)\<lparr>pending := rest, calls := calls (Reader s) + length ps\<rparr>\<rparr>)"
  using assms
proof (induction ps vs arbitrary: s rule: list_all2_induct)
  case Nil
  then show ?case by simp
next
  case (Cons p ps v vs)
  let ?s = "s\<lparr>Reader := (Reader s)\<lparr>pending := concat (map data_line ps) @ rest,
      calls := Suc (calls (Reader s))\<rparr>\<rparr>"
  have 1: "Recv s = ((v, None), ?s)"
    using Cons.prems Cons.hyps(1) by (intro Recv_event) simp_all
  have 2: "successive Recv (length ps) ?s =
      (map (\<lambda>v. (v, None)) vs,
       ?s\<lparr>Reader := (Reader ?s)\<lparr>pending := rest, calls := calls (Reader ?s) + length ps\<rparr>\<rparr>)"
    using Cons.prems by (intro Cons.IH) simp_all
  show ?case
    by (simp add: 1 2)
qed

text \<open>The events, then the sentinel, then any number of further calls.\<close>

lemma round_trip:
  assumes events: "\<And>rest'. pending (Reader s) = concat (map data_line ps) @ rest' \<Longrightarrow>
      successive recv (length ps) s =
        (rs, s\<lparr>Reader := (Reader s)\<lparr>pending := rest',
                calls := calls (Reader s) + length ps\<rparr>\<rparr>)"
    and sentinel: "\<And>s' rest'. \<not> isFinished s' \<Longrightarrow> pending (Reader s') = data_line ''[DONE]'' @ rest' \<Longrightarrow>
      recv s' = ((0, Some io_EOF),
        s'\<lparr>Reader := (Reader s')\<lparr>pending := rest', calls := Suc (calls (Reader s'))\<rparr>,
           isFinished := True\<rparr>)"
    and finished: "\<And>s' n. isFinished s' \<Longrightarrow> successive recv n s' = (replicate n (0, Some io_EOF), s')"
    and "open": "\<not> isFinished s"
    and body: "pending (Reader s) = concat (map data_line ps) @ data_line ''[DONE]'' @ rest"
  shows "successive recv (length ps + Suc k) s =
      (rs @ replicate (Suc k) (0, Some io_EOF),
       s\<lparr>Reader := (Reader s)\<lparr>pending := rest, calls := calls (Reader s) + length ps + 1\<rparr>,
         isFinished := True\<rparr>)"
proof -
  let ?s1 = "s\<lparr>Reader := (Reader s)\<lparr>pending := data_line ''[DONE]'' @ rest,
      calls := calls (Reader s) + length ps\<rparr>\<rparr>"
  let ?s2 = "s\<lparr>Reader := (Reader s)\<lparr>pending := rest, calls := calls (Reader s) + length ps + 1\<rparr>,
      isFinished := True\<rparr>"
  have 1: "successive recv (length ps) s = (rs, ?s1)"
    using body by (rule events)
  have "recv ?s1 = ((0, Some io_EOF),
      ?s1\<lparr>Reader := (Reader ?s1)\<lparr>pending := rest, calls := Suc (calls (Reader ?s1))\<rparr>,
          isFinished := True\<rparr>)"
    using "open" by (intro sentinel) simp_all
  then have 2: "recv ?s1 = ((0, Some io_EOF), ?s2)"
    by simp
  have 3: "successive recv k ?s2 = (replicate k (0, Some io_EOF), ?s2)"
    by (rule finished) simp
  have "successive recv (length ps + Suc k) s =
      (case successive recv (length ps) s of
         (rs, s') \<Rightarrow> (case successive recv (Suc k) s' of (rs', s'') \<Rightarrow> (rs @ rs', s'')))"
    by (rule successive_add)
  also have "\<dots> = (rs @ replicate (Suc k) (0, Some io_EOF), ?s2)"
    using 3 by (simp add: 1 2)
  finally show ?thesis .
qed

text \<open>
  C7 as the claim states it fails in the variant with inline error detection. The
  payload \<^verbatim>\<open>{"error":null,"id":7}\<close> decodes as an event (to the value 7), so the body
  below is a sequence of event lines that decode, followed by the sentinel. The variant
  without inline detection returns 7 and then ends cleanly. The variant with it takes
  the first line for an error object and reads the sentinel line without looking at it:
  both calls fail with the wrapped (absent) detail of the envelope, no value is
  returned, and the session is never marked finished.
\<close>

theorem compliant_stream_counterexample:
  \<open>event_decodes exampleUnmarshaler ''{"error":null,"id":7}'' 7 \<and>
   successive Recv_plain 2
       (exampleStream 2 (data_line ''{"error":null,"id":7}'' @ data_line ''[DONE]''))
     = ([(7, None), (0, Some io_EOF)],
        (exampleStream 2 [])
          \<lparr>Reader := \<lparr>pending = [], rd_err = io_EOF, calls = 2\<rparr>, isFinished := True\<rparr>) \<and>
   successive Recv 2
       (exampleStream 2 (data_line ''{"error":null,"id":7}'' @ data_line ''[DONE]''))
     = ([(0, Some (Errorf_error None)), (0, Some (Errorf_error None))],
        (exampleStream 2 [])
          \<lparr>Reader := \<lparr>pending = [], rd_err = io_EOF, calls = 3\<rparr>,
           ErrAccumulator := DefaultErrorAccumulator ''{"error":null,"id":7}''\<rparr>) \<and>
   fst (successive Recv 2
       (exampleStream 2 (data_line ''{"error":null,"id":7}'' @ data_line ''[DONE]'')))
     \<noteq> [(7, None), (0, Some io_EOF)]\<close>
  by (simp add: run_simps event_decodes_def data_line_def numeral_2_eq_2)

text \<open>
  C7, amended. Take an open session whose body is a sequence of event lines
  \<^verbatim>\<open>data: <p>\n\<close>, each with a payload that decodes, followed by the line
  \<^verbatim>\<open>data: [DONE]\n\<close> and by anything else. In the variant without inline error detection,
  and in the variant with it provided that no event line begins with
  \<^verbatim>\<open>data: {"error":\<close>: the first calls, one per event line, return the decoded values in
  order and leave the session open, with the sentinel line still unread; the next call
  returns \<^verbatim>\<open>io.EOF\<close> with the zero response and sets the finished flag; and every call
  after that returns the same without reading (the count of reads stays at the number
  of event lines plus one, and what follows the sentinel stays unread).
\<close>

theorem compliant_stream_round_trip:
  assumes "\<not> isFinished s"
    and "list_all2 (event_decodes (Unmarshaler s)) ps vs"
    and "pending (Reader s) = concat (map data_line ps) @ data_line ''[DONE]'' @ rest"
  shows "successive Recv_plain (length ps) s =
           (map (\<lambda>v. (v, None)) vs,
            s\<lparr>Reader := (Reader s)\<lparr>pending := data_line ''[DONE]'' @ rest,
                  calls := calls (Reader s) + length ps\<rparr>\<rparr>) \<and>
         successive Recv_plain (length ps + Suc k) s =
           (map (\<lambda>v. (v, None)) vs @ replicate (Suc k) (0, Some io_EOF),
            s\<lparr>Reader := (Reader s)\<lparr>pending := rest, calls := calls (Reader s) + length ps + 1\<rparr>,
              isFinished := True\<rparr>) \<and>
         ((\<forall>p \<in> set ps. \<not> HasPrefix (TrimSpace (data_line p)) errorPrefix) \<longrightarrow>
            successive Recv (length ps) s =
              (map (\<lambda>v. (v, None)) vs,
               s\<lparr>Reader := (Reader s)\<lparr>pending := data_line ''[DONE]'' @ rest,
                     calls := calls (Reader s) + length ps\<rparr>\<rparr>) \<and>
            successive Recv (length ps + Suc k) s =
              (map (\<lambda>v. (v, None)) vs @ replicate (Suc k) (0, Some io_EOF),
               s\<lparr>Reader := (Reader s)\<lparr>pending := rest, calls := calls (Reader s) + length ps + 1\<rparr>,
                 isFinished := True\<rparr>))"
proof -
  have plain: "successive Recv_plain (length ps) s =
      (map (\<lambda>v. (v, None)) vs,
       s\<lparr>Reader := (Reader s)\<lparr>pending := rest', calls := calls (Reader s) + length ps\<rparr>\<rparr>)"
    if "pending (Reader s) = concat (map data_line ps) @ rest'" for rest'
    using assms(2,1) refl that by (rule events_plain)
  have plain_all: "successive Recv_plain (length ps + Suc k) s =
      (map (\<lambda>v. (v, None)) vs @ replicate (Suc k) (0, Some io_EOF),
       s\<lparr>Reader := (Reader s)\<lparr>pending := rest, calls := calls (Reader s) + length ps + 1\<rparr>,
         isFinished := True\<rparr>)"
    using plain Recv_DONE(2) successive_finished(2) assms(1,3) by (rule round_trip)
  have inline_all: "successive Recv (length ps) s =
      (map (\<lambda>v. (v, None)) vs,
       s\<lparr>Reader := (Reader s)\<lparr>pending := data_line ''[DONE]'' @ rest,
             calls := calls (Reader s) + length ps\<rparr>\<rparr>) \<and>
    successive Recv (length ps + Suc k) s =
      (map (\<lambda>v. (v, None)) vs @ replicate (Suc k) (0, Some io_EOF),
       s\<lparr>Reader := (Reader s)\<lparr>pending := rest, calls := calls (Reader s) + length ps + 1\<rparr>,
         isFinished := True\<rparr>)"
    if ne: "\<forall>p \<in> set ps. \<not> HasPrefix (TrimSpace (data_line p)) errorPrefix"
  proof -
    have inline: "successive Recv (length ps) s =
        (map (\<lambda>v. (v, None)) vs,
         s\<lparr>Reader := (Reader s)\<lparr>pending := rest', calls := calls (Reader s) + length ps\<rparr>\<rparr>)"
      if "pending (Reader s) = concat (map data_line ps) @ rest'" for rest'
      using assms(2,1) refl ne that by (rule events_inline)
    have "successive Recv (length ps + Suc k) s =
        (map (\<lambda>v. (v, None)) vs @ replicate (Suc k) (0, Some io_EOF),
         s\<lparr>Reader := (Reader s)\<lparr>pending := rest, calls := calls (Reader s) + length ps + 1\<rparr>,
           isFinished := True\<rparr>)"
      using inline Recv_DONE(1) successive_finished(1) assms(1,3) by (rule round_trip)
    with inline [OF assms(3)] show ?thesis
      by simp
  qed
  from plain [OF assms(3)] plain_all inline_all show ?thesis
    by blast
qed

theorem compliant_stream_round_trip_witness:
  "\<not> isFinished (exampleStream 0 ''data: 1\<newline>data: 2\<newline>data: [DONE]\<newline>ignored'') \<and>
   list_all2 (event_decodes exampleUnmarshaler) [''1'', ''2''] [1, 2] \<and>
   pending (Reader (exampleStream 0 ''data: 1\<newline>data: 2\<newline>data: [DONE]\<newline>ignored''))
     = concat (map data_line [''1'', ''2'']) @ data_line ''[DONE]'' @ ''ignored'' \<and>
   \<not> HasPrefix (TrimSpace (data_line ''1'')) errorPrefix \<and>
   \<not> HasPrefix (TrimSpace (data_line ''2'')) errorPrefix \<and>
   successive Recv (length [''1'', ''2''])
       (exampleStream 0 ''data: 1\<newline>data: 2\<newline>data: [DONE]\<newline>ignored'')
     = ([(1, None), (2, None)],
        (exampleStream 0 [])
          \<lparr>Reader := \<lparr>pending = ''data: [DONE]\<newline>ignored'', rd_err = io_EOF, calls = 2\<rparr>\<rparr>) \<and>
   successive Recv (length [''1'', ''2''] + Suc 1)
       (exampleStream 0 ''data: 1\<newline>data: 2\<newline>data: [DONE]\<newline>ignored'')
     = ([(1, None), (2, None), (0, Some io_EOF), (0, Some io_EOF)],
        (exampleStream 0 [])
          \<lparr>Reader := \<lparr>pending = ''ignored'', rd_err = io_EOF, calls = 3\<rparr>, isFinished := True\<rparr>) \<and>
   successive Recv_plain (length [''1'', ''2''] + Suc 1)
       (exampleStream 0 ''data: 1\<newline>data: 2\<newline>data: [DONE]\<newline>ignored'')
     = ([(1, None), (2, None), (0, Some io_EOF), (0, Some io_EOF)],
        (exampleStream 0 [])
          \<lparr>Reader := \<lparr>pending = ''ignored'', rd_err = io_EOF, calls = 3\<rparr>, isFinished := True\<rparr>)"
  using compliant_stream_round_trip [where
      s = "exampleStream 0 ''data: 1\<newline>data: 2\<newline>data: [DONE]\<newline>ignored''"
      and ps = "[''1'', ''2'']" and vs = "[1, 2]" and rest = "''ignored''" and k = 1]
  by (simp del: successive.simps
      add: exampleStream_def exampleUnmarshaler_def event_decodes_def data_line_def newline_def
        TrimSpace_def stripRunes.simps spaceRunes_def HasPrefix_def TrimPrefix_def
        headerData_def errorPrefix_def)

end
